theory Spec2Isabelle
  imports Main "HOL-Library.Word"
begin

unbundle bit_operations_syntax

chapter \<open>Control firmware of the chess gantry: a shallow embedding\<close>

text \<open>
  The C sources are embedded function by function. A C \<^verbatim>\<open>struct\<close> is a record, an
  \<^verbatim>\<open>enum\<close> a datatype, \<^verbatim>\<open>uint8_t\<close>, \<^verbatim>\<open>uint16_t\<close> and \<^verbatim>\<open>uint64_t\<close> are
  words of that width, \<^verbatim>\<open>char\<close> is the HOL type \<^typ>\<open>char\<close> (read as an unsigned
  byte with \<^const>\<open>of_char\<close>, as plain \<^verbatim>\<open>char\<close> is on the ARM target), and the
  file-level \<^verbatim>\<open>static\<close> variables of a module are the fields of a state record
  that every function takes and returns.
\<close>

section \<open>switch.c\<close>

text \<open>
  \<^verbatim>\<open>switch_state_t\<close> is declared in switch.h; the fields are the ones the
  handler assigns, 16 bits wide as \<^verbatim>\<open>switch_shift_assign\<close> and
  \<^verbatim>\<open>switch_get_reading\<close> return \<^verbatim>\<open>uint16_t\<close>.
\<close>

record switch_state_t =
  current_inputs :: "16 word"
  edges :: "16 word"
  pos_transitions :: "16 word"
  neg_transitions :: "16 word"
  previous_inputs :: "16 word"

text \<open>\<^verbatim>\<open>static switch_state_t switches;\<close> has static storage: every field starts at 0.\<close>

definition switches_initial :: switch_state_t where
  "switches_initial =
     \<lparr>current_inputs = 0, edges = 0, pos_transitions = 0, neg_transitions = 0,
      previous_inputs = 0\<rparr>"

definition switch_get_reading :: "switch_state_t \<Rightarrow> 16 word" where
  "switch_get_reading p_switches = current_inputs p_switches"

text \<open>
  \<^verbatim>\<open>SWITCH_HANDLER\<close>. The value \<^verbatim>\<open>reading\<close> is what \<^verbatim>\<open>switch_shift_assign\<close>
  returned on this interrupt (the GPIO pins, reordered and inverted); the five
  assignments follow in the order of the source, each reading the fields as the
  earlier assignments left them.
\<close>

definition SWITCH_HANDLER :: "16 word \<Rightarrow> switch_state_t \<Rightarrow> switch_state_t" where
  "SWITCH_HANDLER reading p_switches =
     (let s1 = p_switches\<lparr>current_inputs := reading\<rparr>;
          s2 = s1\<lparr>edges := current_inputs s1 XOR previous_inputs s1\<rparr>;
          s3 = s2\<lparr>pos_transitions := current_inputs s2 AND edges s2\<rparr>;
          s4 = s3\<lparr>neg_transitions := (NOT (current_inputs s3)) AND edges s3\<rparr>;
          s5 = s4\<lparr>previous_inputs := current_inputs s4\<rparr>
      in s5)"

text \<open>
  The states the module can be in: the initial one, and whatever the handler makes
  of a reachable state. Nothing else in switch.c writes the structure.
\<close>

inductive switch_reachable :: "switch_state_t \<Rightarrow> bool" where
  initial: "switch_reachable switches_initial"
| interrupt: "switch_reachable s \<Longrightarrow> switch_reachable (SWITCH_HANDLER reading s)"

code_pred switch_reachable .

section \<open>command_queue.c\<close>

text \<open>
  The queue is the array \<^verbatim>\<open>queue[COMMAND_QUEUE_SIZE]\<close> of command pointers with the two
  \<^verbatim>\<open>uint16_t\<close> indices \<^verbatim>\<open>head\<close> (where the next push writes) and \<^verbatim>\<open>tail\<close> (where the
  next pop reads). The pointer type is a parameter \<^typ>\<open>'p\<close>. The array is a list;
  \<^verbatim>\<open>queue[head] = value\<close> is a list update and \<^verbatim>\<open>queue[tail]\<close> a list lookup, both inside
  the array as long as the indices are below 128, which every function keeps.
\<close>

definition COMMAND_QUEUE_SIZE :: "16 word" where
  "COMMAND_QUEUE_SIZE = 128"

record 'p command_queue =
  queue :: "'p list"
  head :: "16 word"
  tail :: "16 word"

definition command_queue_init :: "'p command_queue \<Rightarrow> 'p command_queue" where
  "command_queue_init q = q\<lparr>head := 0, tail := 0\<rparr>"

definition command_queue_get_size :: "'p command_queue \<Rightarrow> 16 word" where
  "command_queue_get_size q =
     (if head q \<ge> tail q then head q - tail q
      else COMMAND_QUEUE_SIZE - (tail q - head q) + 1)"

definition command_queue_is_empty :: "'p command_queue \<Rightarrow> bool" where
  "command_queue_is_empty q = (head q = tail q)"

text \<open>The result pairs the returned \<^verbatim>\<open>bool\<close> with the queue after the call.\<close>

definition command_queue_push :: "'p \<Rightarrow> 'p command_queue \<Rightarrow> bool \<times> 'p command_queue" where
  "command_queue_push v q =
     (if command_queue_get_size q = COMMAND_QUEUE_SIZE then (False, q)
      else
        (let q1 = q\<lparr>queue := (queue q)[unat (head q) := v]\<rparr>;
             q2 = q1\<lparr>head := head q1 + 1\<rparr>;
             q3 = (if head q2 \<ge> COMMAND_QUEUE_SIZE then q2\<lparr>head := 0\<rparr> else q2)
         in (True, q3)))"

text \<open>
  \<^verbatim>\<open>command_queue_pop\<close> returns \<^verbatim>\<open>false\<close> and leaves \<^verbatim>\<open>*p_value\<close> alone on an empty
  queue (\<^const>\<open>None\<close>), and returns \<^verbatim>\<open>true\<close> with the pointer stored in \<^verbatim>\<open>*p_value\<close>
  otherwise (\<^const>\<open>Some\<close>).
\<close>

definition command_queue_pop :: "'p command_queue \<Rightarrow> 'p option \<times> 'p command_queue" where
  "command_queue_pop q =
     (if command_queue_is_empty q then (None, q)
      else
        (let p_value = queue q ! unat (tail q);
             q1 = q\<lparr>tail := tail q + 1\<rparr>;
             q2 = (if tail q1 \<ge> COMMAND_QUEUE_SIZE then q1\<lparr>tail := 0\<rparr> else q1)
         in (Some p_value, q2)))"

text \<open>
  A run of calls, as a caller makes them: \<^verbatim>\<open>command_queue_push\<close> on each pointer of a
  list in turn, and \<^verbatim>\<open>command_queue_pop\<close> a number of times, with the results in call
  order.
\<close>

fun command_queue_pushes :: "'p list \<Rightarrow> 'p command_queue \<Rightarrow> bool list \<times> 'p command_queue" where
  "command_queue_pushes [] q = ([], q)"
| "command_queue_pushes (v # vs) q =
     (let (r, q1) = command_queue_push v q;
          (rs, q2) = command_queue_pushes vs q1
      in (r # rs, q2))"

fun command_queue_pops :: "nat \<Rightarrow> 'p command_queue \<Rightarrow> 'p option list \<times> 'p command_queue" where
  "command_queue_pops 0 q = ([], q)"
| "command_queue_pops (Suc n) q =
     (let (r, q1) = command_queue_pop q;
          (rs, q2) = command_queue_pops n q1
      in (r # rs, q2))"

text \<open>
  The pointers a queue holds, oldest first: the array cells from \<^verbatim>\<open>tail\<close> up to
  \<^verbatim>\<open>head\<close>, going round the end of the array.
\<close>

definition command_queue_stored :: "'p command_queue \<Rightarrow> nat" where
  "command_queue_stored q = (unat (head q) + 128 - unat (tail q)) mod 128"

definition command_queue_contents :: "'p command_queue \<Rightarrow> 'p list" where
  "command_queue_contents q =
     map (\<lambda>k. queue q ! ((unat (tail q) + k) mod 128)) [0..<command_queue_stored q]"

definition command_queue_wf :: "'p command_queue \<Rightarrow> bool" where
  "command_queue_wf q = (length (queue q) = 128 \<and> head q < 128 \<and> tail q < 128)"

section \<open>chessboard.c\<close>

text \<open>
  \<^verbatim>\<open>chess_board_t\<close> (chessboard.h) has the 64-bit presence mask and the 8 by 8 array of
  piece characters, a list of 8 rows here.
\<close>

record chess_board_t =
  board_presence :: "64 word"
  board_pieces :: "char list list"

definition set_piece :: "nat \<Rightarrow> nat \<Rightarrow> char \<Rightarrow> char list list \<Rightarrow> char list list" where
  "set_piece r c v pieces = pieces[r := (pieces ! r)[c := v]]"

definition chessboard_init :: "chess_board_t \<Rightarrow> chess_board_t" where
  "chessboard_init board =
     (let b0 = board\<lparr>board_presence := 0xFFFF00000000FFFF\<rparr>;
          p1 = fold (\<lambda>(c, v). set_piece 0 c v) (zip [0..<8] ''RNBQKBNR'') (board_pieces b0);
          p2 = fold (\<lambda>i p.
                 set_piece 6 i CHR ''p''
                  (set_piece 5 i (CHR 0x00)
                    (set_piece 4 i (CHR 0x00)
                      (set_piece 3 i (CHR 0x00)
                        (set_piece 2 i (CHR 0x00)
                          (set_piece 1 i CHR ''P'' p))))))
                [0..<8] p1;
          p3 = fold (\<lambda>(c, v). set_piece 7 c v) (zip [0..<8] ''rnbqkbnr'') p2
      in b0\<lparr>board_pieces := p3\<rparr>)"

definition chessboard_square_to_index :: "char \<Rightarrow> char \<Rightarrow> 8 word" where
  "chessboard_square_to_index file rank =
     (let index = (0 :: 8 word);
          index =
            (if rank = CHR ''1'' then index + 0
             else if rank = CHR ''2'' then index + 8
             else if rank = CHR ''3'' then index + 16
             else if rank = CHR ''4'' then index + 24
             else if rank = CHR ''5'' then index + 32
             else if rank = CHR ''6'' then index + 40
             else if rank = CHR ''7'' then index + 48
             else if rank = CHR ''8'' then index + 56
             else index);
          index =
            (if file = CHR ''a'' then index + 0
             else if file = CHR ''b'' then index + 1
             else if file = CHR ''c'' then index + 2
             else if file = CHR ''d'' then index + 3
             else if file = CHR ''e'' then index + 4
             else if file = CHR ''f'' then index + 5
             else if file = CHR ''g'' then index + 6
             else if file = CHR ''h'' then index + 7
             else index)
      in index)"

text \<open>
  \<^verbatim>\<open>chessboard_index_to_square\<close> returns the two characters it writes into
  \<^verbatim>\<open>square\<close>. The sums \<^verbatim>\<open>(index % 8) + 'a'\<close> and \<^verbatim>\<open>(index / 8) + '1'\<close> are computed in
  \<^verbatim>\<open>int\<close> and converted to \<^verbatim>\<open>char\<close>.
\<close>

definition chessboard_index_to_square :: "8 word \<Rightarrow> string" where
  "chessboard_index_to_square index =
     (if index > 63 then [CHR ''?'', CHR ''?'']
      else
        (let file = char_of (uint index mod 8 + of_char CHR ''a'');
             rank = char_of (uint index div 8 + of_char CHR ''1'')
         in [file, rank]))"

record board_changes_t =
  num_changes :: "8 word"
  index1 :: "8 word"
  index2 :: "8 word"
  index3 :: "8 word"
  index4 :: "8 word"

text \<open>
  Modelled from the spec: \<^verbatim>\<open>utils_get_board_changes\<close> (utils.c) is not among the
  sources. The specification has it collect the indices of the set bits of the
  difference; the model scans the 64 squares upwards, counts every set bit in
  \<^verbatim>\<open>num_changes\<close> and stores the first four indices in \<^verbatim>\<open>index1\<close> to \<^verbatim>\<open>index4\<close>.
\<close>

definition record_board_change :: "8 word \<Rightarrow> board_changes_t \<Rightarrow> board_changes_t" where
  "record_board_change i bc =
     (let bc1 =
            (if num_changes bc = 0 then bc\<lparr>index1 := i\<rparr>
             else if num_changes bc = 1 then bc\<lparr>index2 := i\<rparr>
             else if num_changes bc = 2 then bc\<lparr>index3 := i\<rparr>
             else if num_changes bc = 3 then bc\<lparr>index4 := i\<rparr>
             else bc)
      in bc1\<lparr>num_changes := num_changes bc1 + 1\<rparr>)"

definition utils_get_board_changes :: "64 word \<Rightarrow> board_changes_t \<Rightarrow> board_changes_t" where
  "utils_get_board_changes changes_in_presence board_changes =
     fold (\<lambda>i bc. if bit changes_in_presence i then record_board_change (of_nat i) bc else bc)
       [0..<64] board_changes"

text \<open>The squares at which a difference of two presence masks has a bit set, upwards.\<close>

definition changed_squares :: "64 word \<Rightarrow> nat list" where
  "changed_squares w = filter (bit w) [0..<64]"

text \<open>
  The four castling footprints \<^verbatim>\<open>CASTLE_WHITE_K\<close>, \<^verbatim>\<open>CASTLE_WHITE_Q\<close>,
  \<^verbatim>\<open>CASTLE_BLACK_K\<close> and \<^verbatim>\<open>CASTLE_BLACK_Q\<close> are macros of chessboard.h, which is not among
  the sources: they are parameters of the model.
\<close>

record castle_footprints =
  CASTLE_WHITE_K :: "64 word"
  CASTLE_WHITE_Q :: "64 word"
  CASTLE_BLACK_K :: "64 word"
  CASTLE_BLACK_Q :: "64 word"

text \<open>
  \<^verbatim>\<open>chessboard_get_move\<close> returns its \<^verbatim>\<open>bool\<close> together with the contents of the
  buffer \<^verbatim>\<open>move\<close> after the call; the buffer is left as it was where the source
  writes nothing.
\<close>

definition chessboard_get_move ::
  "castle_footprints \<Rightarrow> chess_board_t \<Rightarrow> chess_board_t \<Rightarrow> string \<Rightarrow> bool \<times> string" where
  "chessboard_get_move cf previous current move =
     (let previous_presence = board_presence previous;
          current_presence = board_presence current;
          changes_in_presence = previous_presence XOR current_presence;
          board_changes =
            \<lparr>num_changes = 0, index1 = 0xFF, index2 = 0xFF, index3 = 0xFF, index4 = 0xFF\<rparr>;
          board_changes = utils_get_board_changes changes_in_presence board_changes;
          num_changes = num_changes board_changes
      in
        if num_changes = 2 then
          (let index1 = index1 board_changes;
               index2 = index2 board_changes;
               (square_initial, square_final) =
                 (if (drop_bit (unat index1) previous_presence) AND 0x01 \<noteq> 0
                  then (chessboard_index_to_square index1, chessboard_index_to_square index2)
                  else (chessboard_index_to_square index2, chessboard_index_to_square index1))
           in (True,
               [square_initial ! 0, square_initial ! 1, square_final ! 0, square_final ! 1,
                CHR ''_'']))
        else if num_changes = 4 then
          (if changes_in_presence = CASTLE_WHITE_K cf then (True, ''e1g1_'')
           else if changes_in_presence = CASTLE_WHITE_Q cf then (True, ''e1c1_'')
           else if changes_in_presence = CASTLE_BLACK_K cf then (True, ''e8g8_'')
           else if changes_in_presence = CASTLE_BLACK_Q cf then (True, ''e8c8_'')
           else (False, move))
        else (False, move))"

text \<open>
  Modelled from the spec: the specification gives no order in which
  \<^verbatim>\<open>utils_get_board_changes\<close> meets the set bits of the difference, and
  \<^verbatim>\<open>chessboard_get_move\<close> takes whatever the helper left in \<^verbatim>\<open>index1\<close> and \<^verbatim>\<open>index2\<close>.
  \<^verbatim>\<open>utils_get_board_changes_scan\<close> is the helper with the order of its scan as a
  parameter, the list \<^verbatim>\<open>scan\<close> of the squares in the order it looks at them, and
  \<^verbatim>\<open>chessboard_get_move_scan\<close> is \<^verbatim>\<open>chessboard_get_move\<close> over that helper. With the list
  \<^term>\<open>[0..<64]\<close> they are the two definitions above.
\<close>

definition utils_get_board_changes_scan ::
  "nat list \<Rightarrow> 64 word \<Rightarrow> board_changes_t \<Rightarrow> board_changes_t" where
  "utils_get_board_changes_scan scan changes_in_presence board_changes =
     fold (\<lambda>i bc. if bit changes_in_presence i then record_board_change (of_nat i) bc else bc)
       scan board_changes"

definition chessboard_get_move_scan ::
  "nat list \<Rightarrow> castle_footprints \<Rightarrow> chess_board_t \<Rightarrow> chess_board_t \<Rightarrow> string \<Rightarrow> bool \<times> string" where
  "chessboard_get_move_scan scan cf previous current move =
     (let previous_presence = board_presence previous;
          current_presence = board_presence current;
          changes_in_presence = previous_presence XOR current_presence;
          board_changes =
            \<lparr>num_changes = 0, index1 = 0xFF, index2 = 0xFF, index3 = 0xFF, index4 = 0xFF\<rparr>;
          board_changes = utils_get_board_changes_scan scan changes_in_presence board_changes;
          num_changes = num_changes board_changes
      in
        if num_changes = 2 then
          (let index1 = index1 board_changes;
               index2 = index2 board_changes;
               (square_initial, square_final) =
                 (if (drop_bit (unat index1) previous_presence) AND 0x01 \<noteq> 0
                  then (chessboard_index_to_square index1, chessboard_index_to_square index2)
                  else (chessboard_index_to_square index2, chessboard_index_to_square index1))
           in (True,
               [square_initial ! 0, square_initial ! 1, square_final ! 0, square_final ! 1,
                CHR ''_'']))
        else if num_changes = 4 then
          (if changes_in_presence = CASTLE_WHITE_K cf then (True, ''e1g1_'')
           else if changes_in_presence = CASTLE_WHITE_Q cf then (True, ''e1c1_'')
           else if changes_in_presence = CASTLE_BLACK_K cf then (True, ''e8g8_'')
           else if changes_in_presence = CASTLE_BLACK_Q cf then (True, ''e8c8_'')
           else (False, move))
        else (False, move))"

definition chessboard_reset :: "chess_board_t \<times> chess_board_t \<Rightarrow> chess_board_t \<times> chess_board_t" where
  "chessboard_reset boards = (chessboard_init (fst boards), chessboard_init (snd boards))"

section \<open>raspberrypi.h and raspberrypi.c\<close>

definition START_BYTE :: "8 word" where "START_BYTE = 0x0A"
definition ACK_BYTE :: "8 word" where "ACK_BYTE = 0x0F"

definition ROBOT_MOVE_INSTR :: "8 word" where "ROBOT_MOVE_INSTR = 0x04"
definition ILLEGAL_MOVE_INSTR :: "8 word" where "ILLEGAL_MOVE_INSTR = 0x05"

definition HUMAN_MOVE_INSTR_AND_LEN :: "8 word" where "HUMAN_MOVE_INSTR_AND_LEN = 0x35"

definition GAME_ONGOING :: "8 word" where "GAME_ONGOING = 0x01"
definition GAME_CHECKMATE :: "8 word" where "GAME_CHECKMATE = 0x02"
definition GAME_STALEMATE :: "8 word" where "GAME_STALEMATE = 0x03"

text \<open>
  \<^verbatim>\<open>chess_file_t\<close>, \<^verbatim>\<open>chess_rank_t\<close> and \<^verbatim>\<open>chess_move_type_t\<close> are enumerations declared
  outside the sources. Files and ranks are kept as the integers a C enumeration is;
  the move types are the ones \<^verbatim>\<open>gantry_robot_exit\<close> switches on.
\<close>

type_synonym chess_file_t = int
type_synonym chess_rank_t = int

datatype chess_move_type_t = IDLE | MOVE | CAPTURE | CASTLING | EN_PASSENT | PROMOTION

record chess_move_t =
  source_file :: chess_file_t
  source_rank :: chess_rank_t
  dest_file :: chess_file_t
  dest_rank :: chess_rank_t
  move_type :: chess_move_type_t

datatype game_status_t = ONGOING | HUMAN_WIN | ROBOT_WIN | STALEMATE

text \<open>
  What the firmware does to the outside is kept as a trace of the calls it makes:
  a byte handed to \<^verbatim>\<open>uart_out_byte\<close> on the Raspberry Pi channel, a call of
  \<^verbatim>\<open>rpi_transmit_ack\<close>, and the three clock calls on \<^verbatim>\<open>COMM_TIMER\<close>.
\<close>

datatype io_event =
    Uart_Out_Byte "8 word"
  | Rpi_Transmit_Ack
  | Clock_Start_Timer
  | Clock_Stop_Timer
  | Clock_Reset_Timer_Value

text \<open>
  \<^verbatim>\<open>rpi_transmit_human_move\<close>. The argument is the null-terminated string of the doc
  comment: the loop sends characters until it meets \<^verbatim>\<open>'\0'\<close>, and the end of the list
  stands for the terminator too. The \<^verbatim>\<open>utils_delay\<close> between two bytes only spends time
  and is left out.
\<close>

fun rpi_transmit_human_move_loop :: "string \<Rightarrow> io_event list \<Rightarrow> io_event list" where
  "rpi_transmit_human_move_loop [] trace = trace"
| "rpi_transmit_human_move_loop (t # rest) trace =
     (if t \<noteq> CHR 0x00
      then rpi_transmit_human_move_loop rest (trace @ [Uart_Out_Byte (of_char t)])
      else trace)"

definition rpi_transmit_human_move :: "string \<Rightarrow> io_event list \<Rightarrow> io_event list" where
  "rpi_transmit_human_move mv trace =
     (let trace1 = trace @ [Uart_Out_Byte START_BYTE];
          trace2 = trace1 @ [Uart_Out_Byte HUMAN_MOVE_INSTR_AND_LEN]
      in rpi_transmit_human_move_loop mv trace2)"

text \<open>The bytes a trace put on the wire, in order.\<close>

fun wire_bytes :: "io_event list \<Rightarrow> 8 word list" where
  "wire_bytes [] = []"
| "wire_bytes (Uart_Out_Byte b # es) = b # wire_bytes es"
| "wire_bytes (e # es) = wire_bytes es"

section \<open>gantry.c\<close>

text \<open>
  A \<^verbatim>\<open>command_t\<close> is four function pointers; a pointer is the name of the function it
  points to.
\<close>

datatype function_ptr =
    Utils_Empty_Function
  | Gantry_Human_Action | Gantry_Human_Exit | Gantry_Human_Is_Done
  | Gantry_Comm_Action | Gantry_Comm_Exit | Gantry_Comm_Is_Done
  | Gantry_Robot_Entry | Gantry_Robot_Action | Gantry_Robot_Exit | Gantry_Robot_Is_Done
  | Gantry_Home_Entry | Gantry_Home_Is_Done

record command_t =
  p_entry :: function_ptr
  p_action :: function_ptr
  p_exit :: function_ptr
  p_is_done :: function_ptr

text \<open>
  \<^verbatim>\<open>gantry_command_t\<close> (gantry.h) with the fields gantry.c uses.
\<close>

record gantry_command_t =
  command :: command_t
  move :: chess_move_t
  game_status :: game_status_t
  robot_move_uci :: string
  move_to_send :: string

text \<open>
  What the queue holds: the null pointer, or a command. A gantry command is the
  structure its builder filled in.
  The builders of the stepper and delay commands are outside the sources: such a
  command is kept as the call that built it, with its arguments.
\<close>

datatype command_ptr =
    NULL
  | Gantry_Command gantry_command_t
  | Stepper_Build_Chess_XY_Command chess_file_t chess_rank_t int int
  | Stepper_Build_Home_Z_Command
  | Stepper_Build_Home_XY_Command
  | Stepper_Build_Rel_Command int int int int int int
  | Delay_Build_Command int

text \<open>
  The parts of the firmware that gantry.c calls and that are not among the sources
  are parameters of the model: the conversions and the checksum test of utils.c,
  the rook move of a castling, the board update after the robot's move, the
  constants of the headers, and the contents of a block fresh from \<^verbatim>\<open>malloc\<close>
  (the fields a builder does not assign keep them).
\<close>

record externals =
  utils_byte_to_file :: "char \<Rightarrow> chess_file_t"
  utils_byte_to_rank :: "char \<Rightarrow> chess_rank_t"
  utils_byte_to_move_type :: "char \<Rightarrow> chess_move_type_t"
  utils_validate_transmission :: "8 word list \<Rightarrow> nat \<Rightarrow> string \<Rightarrow> bool"
  rpi_castle_get_rook_move :: "chess_move_t \<Rightarrow> chess_move_t"
  chessboard_update_robot_move ::
    "string \<Rightarrow> chess_board_t \<times> chess_board_t \<Rightarrow> chess_board_t \<times> chess_board_t"
  FILE_ERROR :: chess_file_t
  RANK_ERROR :: chess_rank_t
  CAPTURE_FILE :: chess_file_t
  CAPTURE_RANK :: chess_rank_t
  HOMING_DELAY_MS :: int
  HOMING_X_BACKOFF :: int
  HOMING_Y_BACKOFF :: int
  HOMING_Z_BACKOFF :: int
  HOMING_X_VELOCITY :: int
  HOMING_Y_VELOCITY :: int
  HOMING_Z_VELOCITY :: int
  malloc_gantry_command :: gantry_command_t

text \<open>
  The state gantry.c works on: its flags, the two boards, the command queue, the
  outcomes of the coming \<^verbatim>\<open>rpi_receive\<close> calls and the trace of what went out. An
  outcome is the \<^verbatim>\<open>bool\<close> the call returns and the contents of its buffer afterwards.
\<close>

record gantry_state =
  gantry_homing :: bool
  robot_is_done :: bool
  comm_is_done :: bool
  human_is_done :: bool
  msp_illegal_move :: bool
  sys_fault :: bool
  msg_ready_to_send :: bool
  previous_board :: chess_board_t
  current_board :: chess_board_t
  commands :: "command_ptr command_queue"
  rpi_rx :: "(bool \<times> string) list"
  io_trace :: "io_event list"

text \<open>
  Modelled from the spec: \<^verbatim>\<open>rpi_receive(data, size)\<close> is declared in raspberrypi.h and
  its body is not among the sources. The specification has it try to receive without
  blocking and report success. The model takes the next outcome of the state; a call
  succeeds only with a buffer of the size asked for, and with no outcome left it fails.
\<close>

definition rpi_receive :: "nat \<Rightarrow> gantry_state \<Rightarrow> (bool \<times> string) \<times> gantry_state" where
  "rpi_receive sz s =
     (case rpi_rx s of
        [] \<Rightarrow> ((False, replicate sz (CHR 0x00)), s)
      | (ok, data) # rest \<Rightarrow> ((ok \<and> length data = sz, data), s\<lparr>rpi_rx := rest\<rparr>))"

text \<open>
  \<^verbatim>\<open>rpi_transmit_ack\<close> is declared in raspberrypi.h and its body is not among the
  sources: a call is recorded in the trace as it is.
\<close>

definition rpi_transmit_ack :: "gantry_state \<Rightarrow> gantry_state" where
  "rpi_transmit_ack s = s\<lparr>io_trace := io_trace s @ [Rpi_Transmit_Ack]\<rparr>"

text \<open>
  Modelled from the spec: \<^verbatim>\<open>utils_copy_array\<close> (utils.c) is not among the sources; with
  the assignment before it, it commits the current board as the previous one.
\<close>

definition utils_copy_array :: "char list list \<Rightarrow> char list list \<Rightarrow> char list list" where
  "utils_copy_array src dst = src"

text \<open>
  A call of \<^verbatim>\<open>command_queue_push\<close> on the queue of the state with the returned
  \<^verbatim>\<open>bool\<close> dropped, as every call in gantry.c drops it.
\<close>

definition command_queue_push_discard :: "command_ptr \<Rightarrow> gantry_state \<Rightarrow> gantry_state" where
  "command_queue_push_discard c s = s\<lparr>commands := snd (command_queue_push c (commands s))\<rparr>"

definition gantry_human_build_command :: "externals \<Rightarrow> gantry_command_t" where
  "gantry_human_build_command ext =
     (malloc_gantry_command ext)
       \<lparr>command :=
          \<lparr>p_entry = Utils_Empty_Function, p_action = Gantry_Human_Action,
           p_exit = Gantry_Human_Exit, p_is_done = Gantry_Human_Is_Done\<rparr>,
        move :=
          \<lparr>source_file = FILE_ERROR ext, source_rank = RANK_ERROR ext,
           dest_file = FILE_ERROR ext, dest_rank = RANK_ERROR ext, move_type = IDLE\<rparr>,
        game_status := ONGOING,
        move_to_send := ''?????''\<rparr>"

definition gantry_comm_build_command :: "externals \<Rightarrow> string \<Rightarrow> gantry_command_t" where
  "gantry_comm_build_command ext mv =
     (malloc_gantry_command ext)
       \<lparr>command :=
          \<lparr>p_entry = Utils_Empty_Function, p_action = Gantry_Comm_Action,
           p_exit = Gantry_Comm_Exit, p_is_done = Gantry_Comm_Is_Done\<rparr>,
        move :=
          \<lparr>source_file = FILE_ERROR ext, source_rank = RANK_ERROR ext,
           dest_file = FILE_ERROR ext, dest_rank = RANK_ERROR ext, move_type = IDLE\<rparr>,
        game_status := ONGOING,
        move_to_send := [mv ! 0, mv ! 1, mv ! 2, mv ! 3, mv ! 4]\<rparr>"

definition gantry_robot_build_command :: "externals \<Rightarrow> gantry_command_t" where
  "gantry_robot_build_command ext =
     (malloc_gantry_command ext)
       \<lparr>command :=
          \<lparr>p_entry = Gantry_Robot_Entry, p_action = Gantry_Robot_Action,
           p_exit = Gantry_Robot_Exit, p_is_done = Gantry_Robot_Is_Done\<rparr>,
        move :=
          \<lparr>source_file = FILE_ERROR ext, source_rank = RANK_ERROR ext,
           dest_file = FILE_ERROR ext, dest_rank = RANK_ERROR ext, move_type = IDLE\<rparr>,
        game_status := ONGOING,
        robot_move_uci := ''?????'',
        move_to_send := ''?????''\<rparr>"

definition gantry_home_build_command :: "externals \<Rightarrow> gantry_command_t" where
  "gantry_home_build_command ext =
     (malloc_gantry_command ext)
       \<lparr>command :=
          \<lparr>p_entry = Gantry_Home_Entry, p_action = Utils_Empty_Function,
           p_exit = Utils_Empty_Function, p_is_done = Gantry_Home_Is_Done\<rparr>,
        move :=
          \<lparr>source_file = FILE_ERROR ext, source_rank = RANK_ERROR ext,
           dest_file = FILE_ERROR ext, dest_rank = RANK_ERROR ext, move_type = IDLE\<rparr>\<rparr>"

text \<open>
  \<^verbatim>\<open>gantry_comm_action\<close>. The command is only read, so the function returns the state.
  The array \<^verbatim>\<open>move_to_send\<close> has 5 characters and \<^verbatim>\<open>gantry_comm_build_command\<close> writes
  no terminator behind them, while \<^verbatim>\<open>rpi_transmit_human_move\<close> reads on from the start
  of the array until it meets a zero byte. What it reads is therefore the array
  followed by the bytes that lie behind it in memory. gantry.h, which lays the
  structure out, is not among the sources, so these bytes are the parameter
  \<^verbatim>\<open>behind\<close>: the memory behind \<^verbatim>\<open>move_to_send\<close> at the time of the call, as far as
  its first zero byte or further. A list without a zero byte stands for the memory
  in which a zero byte follows it.
\<close>

definition gantry_comm_action :: "string \<Rightarrow> gantry_command_t \<Rightarrow> gantry_state \<Rightarrow> gantry_state" where
  "gantry_comm_action behind p_gantry_command s =
     (if msg_ready_to_send s then
        (let s1 = s\<lparr>io_trace :=
                      rpi_transmit_human_move (move_to_send p_gantry_command @ behind) (io_trace s)\<rparr>;
             s2 = s1\<lparr>msg_ready_to_send := False\<rparr>;
             s3 = s2\<lparr>io_trace := io_trace s2 @ [Clock_Start_Timer]\<rparr>
         in s3)
      else
        (let ((received, ack_byte), s1) = rpi_receive 1 s
         in if received then
              (if of_char (ack_byte ! 0) = ACK_BYTE then
                 (let s2 = s1\<lparr>comm_is_done := True\<rparr>;
                      s3 = s2\<lparr>io_trace := io_trace s2 @ [Clock_Stop_Timer]\<rparr>;
                      s4 = s3\<lparr>io_trace := io_trace s3 @ [Clock_Reset_Timer_Value]\<rparr>
                  in s4)
               else s1)
            else s1))"

definition gantry_comm_exit :: "externals \<Rightarrow> gantry_state \<Rightarrow> gantry_state" where
  "gantry_comm_exit ext s =
     (let s1 = command_queue_push_discard (Gantry_Command (gantry_robot_build_command ext)) s
      in s1\<lparr>comm_is_done := False\<rparr>)"

definition gantry_comm_is_done :: "gantry_state \<Rightarrow> bool" where
  "gantry_comm_is_done s = comm_is_done s"

definition gantry_robot_entry ::
  "externals \<Rightarrow> gantry_command_t \<Rightarrow> gantry_state \<Rightarrow> gantry_command_t \<times> gantry_state" where
  "gantry_robot_entry ext gantry_robot_move_cmd s =
     (gantry_robot_move_cmd
        \<lparr>move :=
           \<lparr>source_file = FILE_ERROR ext, source_rank = RANK_ERROR ext,
            dest_file = FILE_ERROR ext, dest_rank = RANK_ERROR ext, move_type = IDLE\<rparr>\<rparr>,
      s\<lparr>robot_is_done := False\<rparr>)"

text \<open>
  The five assignments that load the robot's move from the frame into the command,
  as they stand in three branches of \<^verbatim>\<open>gantry_robot_action\<close>.
\<close>

definition load_robot_move :: "externals \<Rightarrow> string \<Rightarrow> gantry_command_t \<Rightarrow> gantry_command_t" where
  "load_robot_move ext mv c =
     c\<lparr>move :=
         \<lparr>source_file = utils_byte_to_file ext (mv ! 0),
          source_rank = utils_byte_to_rank ext (mv ! 1),
          dest_file = utils_byte_to_file ext (mv ! 2),
          dest_rank = utils_byte_to_rank ext (mv ! 3),
          move_type = utils_byte_to_move_type ext (mv ! 4)\<rparr>\<rparr>"

text \<open>
  \<^verbatim>\<open>gantry_robot_action\<close>, as compiled with \<^verbatim>\<open>FINAL_IMPLEMENTATION_MODE\<close> or
  \<^verbatim>\<open>THREE_PARTY_MODE\<close>. The result of the receive of the check bytes is not tested
  by the source, and is not tested here.
\<close>

definition gantry_robot_action ::
  "externals \<Rightarrow> gantry_command_t \<Rightarrow> gantry_state \<Rightarrow> gantry_command_t \<times> gantry_state" where
  "gantry_robot_action ext p_gantry_command s =
     (let ((received1, first_byte), s1) = rpi_receive 1 s
      in if \<not> received1 then (p_gantry_command, s1)
      else if of_char (first_byte ! 0) \<noteq> START_BYTE then (p_gantry_command, s1)
      else
        (let ((received2, instr_op_len), s2) = rpi_receive 1 s1
         in if \<not> received2 then (p_gantry_command, s2)
         else
           (let instr = drop_bit 4 (of_char (instr_op_len ! 0) :: 8 word)
            in if instr = ROBOT_MOVE_INSTR then
              (let ((received3, mv), s3) = rpi_receive 5 s2
               in if \<not> received3 then (p_gantry_command, s3)
               else
                 (let ((received4, status_byte), s4) = rpi_receive 1 s3
                  in if \<not> received4 then (p_gantry_command, s4)
                  else
                    (let message =
                           [first_byte ! 0, instr_op_len ! 0, mv ! 0, mv ! 1, mv ! 2, mv ! 3,
                            mv ! 4, status_byte ! 0];
                         ((received5, check_bytes), s5) = rpi_receive 2 s4
                     in if utils_validate_transmission ext (map of_char message) 8 check_bytes
                        then
                          (let s6 = rpi_transmit_ack s5;
                               s7 = s6\<lparr>previous_board :=
                                      (previous_board s6)
                                        \<lparr>board_presence := board_presence (current_board s6)\<rparr>\<rparr>;
                               s8 = s7\<lparr>previous_board :=
                                      (previous_board s7)
                                        \<lparr>board_pieces :=
                                           utils_copy_array (board_pieces (current_board s7))
                                             (board_pieces (previous_board s7))\<rparr>\<rparr>;
                               status_after_human =
                                 drop_bit 4 (of_char (status_byte ! 0) :: 8 word);
                               status_after_robot =
                                 (of_char (status_byte ! 0) :: 8 word) AND NOT 0xF0;
                               c1 = p_gantry_command
                                      \<lparr>robot_move_uci := [mv ! 0, mv ! 1, mv ! 2, mv ! 3, mv ! 4]\<rparr>;
                               c2 =
                                 (if status_after_human = GAME_CHECKMATE then
                                    (c1\<lparr>game_status := HUMAN_WIN\<rparr>)
                                      \<lparr>move := (move c1)\<lparr>move_type := IDLE\<rparr>\<rparr>
                                  else if status_after_robot = GAME_CHECKMATE then
                                    load_robot_move ext mv (c1\<lparr>game_status := ROBOT_WIN\<rparr>)
                                  else if status_after_human = GAME_STALEMATE then
                                    (c1\<lparr>game_status := STALEMATE\<rparr>)
                                      \<lparr>move := (move c1)\<lparr>move_type := IDLE\<rparr>\<rparr>
                                  else if status_after_robot = GAME_STALEMATE then
                                    load_robot_move ext mv (c1\<lparr>game_status := STALEMATE\<rparr>)
                                  else
                                    load_robot_move ext mv (c1\<lparr>game_status := ONGOING\<rparr>))
                           in (c2, s8\<lparr>robot_is_done := True\<rparr>))
                        else (p_gantry_command, s5))))
            else if instr = ILLEGAL_MOVE_INSTR then
              (let message = [first_byte ! 0, instr_op_len ! 0];
                   ((received3, check_bytes), s3) = rpi_receive 2 s2
               in if utils_validate_transmission ext (map of_char message) 2 check_bytes
                  then
                    (let s4 = rpi_transmit_ack s3
                     in (p_gantry_command\<lparr>move := (move p_gantry_command)\<lparr>move_type := IDLE\<rparr>\<rparr>,
                         s4\<lparr>robot_is_done := True\<rparr>))
                  else (p_gantry_command, s3))
            else (p_gantry_command, s2))))"

definition gantry_robot_is_done :: "gantry_state \<Rightarrow> bool" where
  "gantry_robot_is_done s = robot_is_done s"

definition gantry_home_entry :: "gantry_state \<Rightarrow> gantry_state" where
  "gantry_home_entry s = s\<lparr>gantry_homing := \<not> gantry_homing s\<rparr>"

text \<open>
  \<^verbatim>\<open>gantry_home\<close> and \<^verbatim>\<open>gantry_robot_exit\<close> only push commands, one
  \<^verbatim>\<open>command_queue_push\<close> after the other with the result dropped. Each is given by the
  list of the pointers it pushes, in the order of the calls, and pushes that list.
\<close>

definition gantry_home_pushes :: "externals \<Rightarrow> command_ptr list" where
  "gantry_home_pushes ext =
     [Gantry_Command (gantry_home_build_command ext),
      Stepper_Build_Home_Z_Command,
      Stepper_Build_Home_XY_Command,
      Delay_Build_Command (HOMING_DELAY_MS ext),
      Stepper_Build_Rel_Command (HOMING_X_BACKOFF ext) (HOMING_Y_BACKOFF ext) (HOMING_Z_BACKOFF ext)
        (HOMING_X_VELOCITY ext) (HOMING_Y_VELOCITY ext) (HOMING_Z_VELOCITY ext),
      Gantry_Command (gantry_home_build_command ext)]"

definition gantry_home :: "externals \<Rightarrow> gantry_state \<Rightarrow> gantry_state" where
  "gantry_home ext s = fold command_queue_push_discard (gantry_home_pushes ext) s"

definition gantry_robot_exit_move_pushes :: "externals \<Rightarrow> gantry_command_t \<Rightarrow> command_ptr list" where
  "gantry_robot_exit_move_pushes ext p_gantry_command =
     (let m = move p_gantry_command;
          no_source = (source_file m = FILE_ERROR ext \<or> source_rank m = RANK_ERROR ext)
      in case move_type m of
        MOVE \<Rightarrow>
          if no_source then []
          else
            [Stepper_Build_Chess_XY_Command (source_file m) (source_rank m) 1 1,
             Delay_Build_Command 1000,
             Stepper_Build_Chess_XY_Command (dest_file m) (dest_rank m) 1 1,
             Delay_Build_Command 1000]
            @ gantry_home_pushes ext
      | PROMOTION \<Rightarrow>
          if no_source then []
          else
            [Stepper_Build_Chess_XY_Command (source_file m) (source_rank m) 1 1,
             Delay_Build_Command 1000,
             Stepper_Build_Chess_XY_Command (CAPTURE_FILE ext) (CAPTURE_RANK ext) 1 1,
             Delay_Build_Command 1000,
             Stepper_Build_Chess_XY_Command (CAPTURE_FILE ext) (CAPTURE_RANK ext) 1 1,
             Delay_Build_Command 1000,
             Stepper_Build_Chess_XY_Command (dest_file m) (dest_rank m) 1 1,
             Delay_Build_Command 1000]
            @ gantry_home_pushes ext
      | CAPTURE \<Rightarrow>
          if no_source then []
          else
            [Stepper_Build_Chess_XY_Command (dest_file m) (dest_rank m) 1 1,
             Delay_Build_Command 1000,
             Stepper_Build_Chess_XY_Command (CAPTURE_FILE ext) (CAPTURE_RANK ext) 1 1,
             Delay_Build_Command 1000,
             Stepper_Build_Chess_XY_Command (source_file m) (source_rank m) 1 1,
             Delay_Build_Command 1000,
             Stepper_Build_Chess_XY_Command (dest_file m) (dest_rank m) 1 1,
             Delay_Build_Command 1000]
            @ gantry_home_pushes ext
      | CASTLING \<Rightarrow>
          if no_source then []
          else
            (let rook_move = rpi_castle_get_rook_move ext m
             in [Stepper_Build_Chess_XY_Command (source_file m) (source_rank m) 1 1,
                 Delay_Build_Command 1000,
                 Stepper_Build_Chess_XY_Command (dest_file m) (dest_rank m) 1 1,
                 Delay_Build_Command 1000,
                 Stepper_Build_Chess_XY_Command (source_file rook_move) (source_rank rook_move) 1 1,
                 Delay_Build_Command 1000,
                 Stepper_Build_Chess_XY_Command (dest_file rook_move) (dest_rank rook_move) 1 1,
                 Delay_Build_Command 1000]
                @ gantry_home_pushes ext)
      | EN_PASSENT \<Rightarrow>
          if no_source then []
          else
            [Stepper_Build_Chess_XY_Command (dest_file m) (source_rank m) 1 1,
             Delay_Build_Command 1000,
             Stepper_Build_Chess_XY_Command (CAPTURE_FILE ext) (CAPTURE_RANK ext) 1 1,
             Delay_Build_Command 1000,
             Stepper_Build_Chess_XY_Command (source_file m) (source_rank m) 1 1,
             Delay_Build_Command 1000,
             Stepper_Build_Chess_XY_Command (dest_file m) (dest_rank m) 1 1]
            @ gantry_home_pushes ext
      | IDLE \<Rightarrow> [])"

definition gantry_robot_exit_pushes :: "externals \<Rightarrow> gantry_command_t \<Rightarrow> command_ptr list" where
  "gantry_robot_exit_pushes ext p_gantry_command =
     gantry_robot_exit_move_pushes ext p_gantry_command
     @ (if game_status p_gantry_command = ONGOING
        then [Gantry_Command (gantry_human_build_command ext)]
        else [])"

definition gantry_robot_exit :: "externals \<Rightarrow> gantry_command_t \<Rightarrow> gantry_state \<Rightarrow> gantry_state" where
  "gantry_robot_exit ext p_gantry_command s =
     (let s1 = fold command_queue_push_discard (gantry_robot_exit_pushes ext p_gantry_command) s;
          (previous, current) =
            chessboard_update_robot_move ext (robot_move_uci p_gantry_command)
              (previous_board s1, current_board s1)
      in s1\<lparr>previous_board := previous, current_board := current\<rparr>)"

text \<open>
  A human-sense command is a gantry command whose action is \<^verbatim>\<open>gantry_human_action\<close>.
\<close>

fun is_human_sense_command :: "command_ptr \<Rightarrow> bool" where
  "is_human_sense_command (Gantry_Command g) = (p_action (command g) = Gantry_Human_Action)"
| "is_human_sense_command _ = False"

text \<open>
  Calls of \<^verbatim>\<open>gantry_comm_action\<close> in a row, as the runtime makes them while the
  command is not done and no interrupt comes in between: one call for each element
  of the list, which gives the memory behind \<^verbatim>\<open>move_to_send\<close> at that call.
\<close>

fun gantry_comm_actions :: "string list \<Rightarrow> gantry_command_t \<Rightarrow> gantry_state \<Rightarrow> gantry_state" where
  "gantry_comm_actions [] c s = s"
| "gantry_comm_actions (behind # behinds) c s =
     gantry_comm_actions behinds c (gantry_comm_action behind c s)"

text \<open>
  The bytes \<^verbatim>\<open>rpi_transmit_human_move\<close> sends when it is handed the array
  \<^verbatim>\<open>move_to_send\<close> of a command with the bytes \<^verbatim>\<open>behind\<close> behind it in memory, and
  whether the next one-byte receive succeeds with the acknowledgement byte.
\<close>

definition human_move_frame :: "string \<Rightarrow> gantry_command_t \<Rightarrow> 8 word list" where
  "human_move_frame behind c =
     wire_bytes (rpi_transmit_human_move (move_to_send c @ behind) [])"

definition ack_received :: "gantry_state \<Rightarrow> bool" where
  "ack_received s =
     (case rpi_receive 1 s of ((received, ack_byte), s1) \<Rightarrow>
        received \<and> of_char (ack_byte ! 0) = ACK_BYTE)"

text \<open>
  What the link holds for the five receives \<^verbatim>\<open>gantry_robot_action\<close> makes of a
  RobotMove frame (1, 1, 5, 1 and 2 bytes). \<^verbatim>\<open>gantry_robot_action\<close> accepts the frame
  when it passes the tests the source makes: the first four receives succeed, the
  first byte is the start byte, the instruction is RobotMove and the contents of the
  buffer of the check bytes pass \<^verbatim>\<open>utils_validate_transmission\<close> over the 8 bytes
  before them. The result of the fifth receive, of the check bytes, is not among
  these tests. Likewise for the three receives of an IllegalMove frame (1, 1 and 2
  bytes), where the result of the third is not tested.
\<close>

definition robot_move_frame_accepted :: "externals \<Rightarrow> gantry_state \<Rightarrow> bool" where
  "robot_move_frame_accepted ext s =
     (let ((received1, first_byte), s1) = rpi_receive 1 s;
          ((received2, instr_op_len), s2) = rpi_receive 1 s1;
          ((received3, mv), s3) = rpi_receive 5 s2;
          ((received4, status_byte), s4) = rpi_receive 1 s3;
          ((received5, check_bytes), s5) = rpi_receive 2 s4
      in received1 \<and> of_char (first_byte ! 0) = START_BYTE
         \<and> received2 \<and> drop_bit 4 (of_char (instr_op_len ! 0) :: 8 word) = ROBOT_MOVE_INSTR
         \<and> received3 \<and> received4
         \<and> utils_validate_transmission ext
              (map of_char ([first_byte ! 0, instr_op_len ! 0] @ mv @ [status_byte ! 0])) 8
              check_bytes)"

definition illegal_move_frame_accepted :: "externals \<Rightarrow> gantry_state \<Rightarrow> bool" where
  "illegal_move_frame_accepted ext s =
     (let ((received1, first_byte), s1) = rpi_receive 1 s;
          ((received2, instr_op_len), s2) = rpi_receive 1 s1;
          ((received3, check_bytes), s3) = rpi_receive 2 s2
      in received1 \<and> of_char (first_byte ! 0) = START_BYTE
         \<and> received2 \<and> drop_bit 4 (of_char (instr_op_len ! 0) :: 8 word) = ILLEGAL_MOVE_INSTR
         \<and> utils_validate_transmission ext
              (map of_char [first_byte ! 0, instr_op_len ! 0]) 2 check_bytes)"

text \<open>
  A RobotMove frame is complete and validated when all five receives succeed, the
  first byte is the start byte, the instruction is RobotMove and the 2 check bytes
  received pass \<^verbatim>\<open>utils_validate_transmission\<close> over the 8 bytes before them. An
  IllegalMove frame is complete and validated when all three receives succeed, the
  first byte is the start byte, the instruction is IllegalMove and the 2 check bytes
  received pass over the 2 bytes before them.
\<close>

definition robot_move_frame_validated :: "externals \<Rightarrow> gantry_state \<Rightarrow> bool" where
  "robot_move_frame_validated ext s =
     (let ((received1, first_byte), s1) = rpi_receive 1 s;
          ((received2, instr_op_len), s2) = rpi_receive 1 s1;
          ((received3, mv), s3) = rpi_receive 5 s2;
          ((received4, status_byte), s4) = rpi_receive 1 s3;
          ((received5, check_bytes), s5) = rpi_receive 2 s4
      in received1 \<and> of_char (first_byte ! 0) = START_BYTE
         \<and> received2 \<and> drop_bit 4 (of_char (instr_op_len ! 0) :: 8 word) = ROBOT_MOVE_INSTR
         \<and> received3 \<and> received4 \<and> received5
         \<and> utils_validate_transmission ext
              (map of_char ([first_byte ! 0, instr_op_len ! 0] @ mv @ [status_byte ! 0])) 8
              check_bytes)"

definition illegal_move_frame_validated :: "externals \<Rightarrow> gantry_state \<Rightarrow> bool" where
  "illegal_move_frame_validated ext s =
     (let ((received1, first_byte), s1) = rpi_receive 1 s;
          ((received2, instr_op_len), s2) = rpi_receive 1 s1;
          ((received3, check_bytes), s3) = rpi_receive 2 s2
      in received1 \<and> of_char (first_byte ! 0) = START_BYTE
         \<and> received2 \<and> drop_bit 4 (of_char (instr_op_len ! 0) :: 8 word) = ILLEGAL_MOVE_INSTR
         \<and> received3
         \<and> utils_validate_transmission ext
              (map of_char [first_byte ! 0, instr_op_len ! 0]) 2 check_bytes)"

text \<open>
  The check bytes of a frame are missing when the frame arrives as far as its check
  bytes (a RobotMove frame as far as its status byte, an IllegalMove frame as far as
  its instruction byte) and the receive of the 2 check bytes fails.
\<close>

definition check_bytes_missing :: "gantry_state \<Rightarrow> bool" where
  "check_bytes_missing s =
     (let ((received1, first_byte), s1) = rpi_receive 1 s;
          ((received2, instr_op_len), s2) = rpi_receive 1 s1;
          instr = drop_bit 4 (of_char (instr_op_len ! 0) :: 8 word)
      in received1 \<and> of_char (first_byte ! 0) = START_BYTE \<and> received2
         \<and> (if instr = ROBOT_MOVE_INSTR then
               (let ((received3, mv), s3) = rpi_receive 5 s2;
                    ((received4, status_byte), s4) = rpi_receive 1 s3;
                    ((received5, check_bytes), s5) = rpi_receive 2 s4
                in received3 \<and> received4 \<and> \<not> received5)
             else if instr = ILLEGAL_MOVE_INSTR then
               (let ((received3, check_bytes), s3) = rpi_receive 2 s2
                in \<not> received3)
             else False))"

text \<open>The move and the status byte of the frame the link holds.\<close>

definition frame_move :: "gantry_state \<Rightarrow> string" where
  "frame_move s = snd (fst (rpi_receive 5 (snd (rpi_receive 1 (snd (rpi_receive 1 s))))))"

definition frame_status :: "gantry_state \<Rightarrow> 8 word" where
  "frame_status s =
     of_char (snd (fst (rpi_receive 1
       (snd (rpi_receive 5 (snd (rpi_receive 1 (snd (rpi_receive 1 s)))))))) ! 0)"

section \<open>Concrete parameters and inputs\<close>

text \<open>
  To run the model on concrete frames the parameters need values. The ones below
  are an instance, not the firmware's: files and ranks count from 0 with \<^term>\<open>-1\<close> for
  the error value, the fifth character of a move selects the move type, and the check
  bytes are the two that bring a Fletcher sum modulo 255 over the frame to zero.
\<close>

definition sample_validate_transmission :: "8 word list \<Rightarrow> nat \<Rightarrow> string \<Rightarrow> bool" where
  "sample_validate_transmission message n check_bytes =
     (length check_bytes = 2 \<and>
      fold (\<lambda>b (sum1, sum2). ((sum1 + unat b) mod 255, (sum2 + (sum1 + unat b) mod 255) mod 255))
        (take n message @ map of_char check_bytes) (0, 0) = (0, 0))"

definition sample_byte_to_file :: "char \<Rightarrow> chess_file_t" where
  "sample_byte_to_file c =
     (if (97::int) \<le> of_char c \<and> of_char c \<le> (104::int) then of_char c - 97 else -1)"

definition sample_byte_to_rank :: "char \<Rightarrow> chess_rank_t" where
  "sample_byte_to_rank c =
     (if (49::int) \<le> of_char c \<and> of_char c \<le> (56::int) then of_char c - 49 else -1)"

definition sample_byte_to_move_type :: "char \<Rightarrow> chess_move_type_t" where
  "sample_byte_to_move_type c =
     (if c = CHR ''_'' then MOVE
      else if c = CHR ''C'' then CAPTURE
      else if c = CHR ''c'' then CASTLING
      else if c = CHR ''E'' then EN_PASSENT
      else if c = CHR ''Q'' then PROMOTION
      else IDLE)"

definition sample_castle_get_rook_move :: "chess_move_t \<Rightarrow> chess_move_t" where
  "sample_castle_get_rook_move king_move =
     (if dest_file king_move = 6
      then king_move\<lparr>source_file := 7, dest_file := 5\<rparr>
      else king_move\<lparr>source_file := 0, dest_file := 3\<rparr>)"

definition sample_update_robot_move ::
  "string \<Rightarrow> chess_board_t \<times> chess_board_t \<Rightarrow> chess_board_t \<times> chess_board_t" where
  "sample_update_robot_move uci boards =
     (let src = unat (chessboard_square_to_index (uci ! 0) (uci ! 1));
          dst = unat (chessboard_square_to_index (uci ! 2) (uci ! 3));
          previous = fst boards
      in (previous\<lparr>board_presence :=
                     set_bit dst (unset_bit src (board_presence previous))\<rparr>,
          snd boards))"

definition sample_malloc_block :: gantry_command_t where
  "sample_malloc_block =
     \<lparr>command =
        \<lparr>p_entry = Utils_Empty_Function, p_action = Utils_Empty_Function,
         p_exit = Utils_Empty_Function, p_is_done = Utils_Empty_Function\<rparr>,
      move = \<lparr>source_file = 0, source_rank = 0, dest_file = 0, dest_rank = 0, move_type = IDLE\<rparr>,
      game_status = STALEMATE,
      robot_move_uci = ''#####'',
      move_to_send = ''#####''\<rparr>"

definition sample_externals :: externals where
  "sample_externals =
     \<lparr>utils_byte_to_file = sample_byte_to_file,
      utils_byte_to_rank = sample_byte_to_rank,
      utils_byte_to_move_type = sample_byte_to_move_type,
      utils_validate_transmission = sample_validate_transmission,
      rpi_castle_get_rook_move = sample_castle_get_rook_move,
      chessboard_update_robot_move = sample_update_robot_move,
      FILE_ERROR = -1, RANK_ERROR = -1, CAPTURE_FILE = 8, CAPTURE_RANK = 3,
      HOMING_DELAY_MS = 3000,
      HOMING_X_BACKOFF = -5, HOMING_Y_BACKOFF = 5, HOMING_Z_BACKOFF = 0,
      HOMING_X_VELOCITY = 1, HOMING_Y_VELOCITY = 1, HOMING_Z_VELOCITY = 0,
      malloc_gantry_command = sample_malloc_block\<rparr>"

definition sample_castle_footprints :: castle_footprints where
  "sample_castle_footprints =
     \<lparr>CASTLE_WHITE_K = 0x00000000000000F0, CASTLE_WHITE_Q = 0x000000000000001D,
      CASTLE_BLACK_K = 0xF000000000000000, CASTLE_BLACK_Q = 0x1D00000000000000\<rparr>"

text \<open>
  The state after start-up: the flags as their initialisers set them, both boards
  at the starting position, the queue initialised over an array of null pointers,
  nothing to receive and nothing sent yet.
\<close>

definition start_board :: chess_board_t where
  "start_board =
     chessboard_init \<lparr>board_presence = 0, board_pieces = replicate 8 (replicate 8 (CHR 0x00))\<rparr>"

definition gantry_startup :: gantry_state where
  "gantry_startup =
     \<lparr>gantry_homing = False, robot_is_done = False, comm_is_done = False,
      human_is_done = False, msp_illegal_move = False, sys_fault = False,
      msg_ready_to_send = False,
      previous_board = start_board, current_board = start_board,
      commands = command_queue_init \<lparr>queue = replicate 128 NULL, head = 0, tail = 0\<rparr>,
      rpi_rx = [], io_trace = []\<rparr>"

text \<open>
  Frames as the link delivers them to \<^verbatim>\<open>gantry_robot_action\<close>, one outcome for each
  receive: a RobotMove frame for \<^verbatim>\<open>e7e5_\<close> with status \<^verbatim>\<open>0x11\<close>, the same move with
  status \<^verbatim>\<open>0x21\<close> (the human has given checkmate), an IllegalMove frame, and the first
  frame with a wrong check byte. The board \<^verbatim>\<open>sample_after_e2e4\<close> is the starting
  position with the pawn moved from e2 to e4.
\<close>

definition sample_robot_move_rx :: "(bool \<times> string) list" where
  "sample_robot_move_rx =
     [(True, [CHR 0x0A]), (True, [CHR 0x46]), (True, ''e7e5_''), (True, [CHR 0x11]),
      (True, [CHR 0x52, CHR 0xB5])]"

definition sample_checkmated_rx :: "(bool \<times> string) list" where
  "sample_checkmated_rx =
     [(True, [CHR 0x0A]), (True, [CHR 0x46]), (True, ''e7e5_''), (True, [CHR 0x21]),
      (True, [CHR 0x32, CHR 0xC5])]"

definition sample_illegal_move_rx :: "(bool \<times> string) list" where
  "sample_illegal_move_rx =
     [(True, [CHR 0x0A]), (True, [CHR 0x50]), (True, [CHR 0x41, CHR 0x64])]"

definition sample_corrupt_rx :: "(bool \<times> string) list" where
  "sample_corrupt_rx =
     [(True, [CHR 0x0A]), (True, [CHR 0x46]), (True, ''e7e5_''), (True, [CHR 0x11]),
      (True, [CHR 0x52, CHR 0xB4])]"

definition sample_after_e2e4 :: chess_board_t where
  "sample_after_e2e4 = start_board\<lparr>board_presence := 0xFFFF00001000EFFF\<rparr>"

text \<open>
  Boards for a white king-side castling (f1 and g1 empty before; e1 and h1 empty
  after), and the starting position with the pawn lifted from e2.
\<close>

definition sample_before_castling :: chess_board_t where
  "sample_before_castling = start_board\<lparr>board_presence := 0xFFFF00000000FF9F\<rparr>"

definition sample_after_castling :: chess_board_t where
  "sample_after_castling = start_board\<lparr>board_presence := 0xFFFF00000000FF6F\<rparr>"

definition sample_piece_lifted :: chess_board_t where
  "sample_piece_lifted = start_board\<lparr>board_presence := 0xFFFF00000000EFFF\<rparr>"

text \<open>
  Robot-reply commands as \<^verbatim>\<open>gantry_robot_action\<close> leaves them: after the reply
  \<^verbatim>\<open>e7e5_\<close> with the game going on, and after a reply that reports the human's
  checkmate.
\<close>

definition sample_reply_ongoing :: gantry_command_t where
  "sample_reply_ongoing =
     (gantry_robot_build_command sample_externals)
       \<lparr>move := \<lparr>source_file = 4, source_rank = 6, dest_file = 4, dest_rank = 4, move_type = MOVE\<rparr>,
        game_status := ONGOING, robot_move_uci := ''e7e5_''\<rparr>"

definition sample_reply_human_win :: gantry_command_t where
  "sample_reply_human_win =
     (gantry_robot_build_command sample_externals)
       \<lparr>game_status := HUMAN_WIN, robot_move_uci := ''e7e5_''\<rparr>"

section \<open>Properties of switch.c\<close>

lemma SWITCH_HANDLER_fields:
  "current_inputs (SWITCH_HANDLER reading s) = reading"
  "previous_inputs (SWITCH_HANDLER reading s) = reading"
  "edges (SWITCH_HANDLER reading s) = reading XOR previous_inputs s"
  "pos_transitions (SWITCH_HANDLER reading s) = reading AND (reading XOR previous_inputs s)"
  "neg_transitions (SWITCH_HANDLER reading s) = (NOT reading) AND (reading XOR previous_inputs s)"
  by (simp_all add: SWITCH_HANDLER_def Let_def)

lemma switch_reachable_previous_eq_current:
  "switch_reachable s \<Longrightarrow> previous_inputs s = current_inputs s"
  by (induction rule: switch_reachable.induct)
     (simp_all add: switches_initial_def SWITCH_HANDLER_fields)

lemma edge_bits_pos: "(x::16 word) AND (x XOR y) = x AND NOT y"
  by (rule bit_eqI) (auto simp: bit_simps)

lemma edge_bits_neg: "NOT (x::16 word) AND (x XOR y) = NOT x AND y"
  by (rule bit_eqI) (auto simp: bit_simps)

lemma edge_bits_disjoint: "(x AND NOT y) AND (NOT x AND y) = (0::16 word)"
  by (rule bit_eqI) (auto simp: bit_simps)

lemma edge_bits_union: "(x AND NOT y) OR (NOT x AND y) = (x XOR y :: 16 word)"
  by (rule bit_eqI) (auto simp: bit_simps)

text \<open>
  Claim C10. After the switch interrupt handler has run on a reading \<^verbatim>\<open>reading\<close> in
  any state the module can reach, the positive and negative transitions have no bit in
  common, together they are the XOR of the reading with the inputs current before the
  interrupt, the positive transitions are the bits set in the reading and clear before,
  the negative transitions the bits clear in the reading and set before, and
  \<^verbatim>\<open>previous_inputs\<close> equals \<^verbatim>\<open>current_inputs\<close>.
\<close>

theorem switch_handler_edge_invariant:
  assumes "switch_reachable s"
  shows "pos_transitions (SWITCH_HANDLER reading s) AND neg_transitions (SWITCH_HANDLER reading s) = 0
       \<and> pos_transitions (SWITCH_HANDLER reading s) OR neg_transitions (SWITCH_HANDLER reading s)
           = reading XOR current_inputs s
       \<and> pos_transitions (SWITCH_HANDLER reading s) = reading AND NOT (current_inputs s)
       \<and> neg_transitions (SWITCH_HANDLER reading s) = NOT reading AND current_inputs s
       \<and> previous_inputs (SWITCH_HANDLER reading s) = current_inputs (SWITCH_HANDLER reading s)"
proof -
  have prev: "previous_inputs s = current_inputs s"
    using assms by (rule switch_reachable_previous_eq_current)
  have pos: "pos_transitions (SWITCH_HANDLER reading s) = reading AND NOT (current_inputs s)"
    by (simp add: SWITCH_HANDLER_fields prev edge_bits_pos)
  have neg: "neg_transitions (SWITCH_HANDLER reading s) = NOT reading AND current_inputs s"
    by (simp add: SWITCH_HANDLER_fields prev edge_bits_neg)
  have disj: "pos_transitions (SWITCH_HANDLER reading s) AND neg_transitions (SWITCH_HANDLER reading s) = 0"
    unfolding pos neg by (rule edge_bits_disjoint)
  have un: "pos_transitions (SWITCH_HANDLER reading s) OR neg_transitions (SWITCH_HANDLER reading s)
              = reading XOR current_inputs s"
    unfolding pos neg by (rule edge_bits_union)
  have same: "previous_inputs (SWITCH_HANDLER reading s) = current_inputs (SWITCH_HANDLER reading s)"
    by (simp add: SWITCH_HANDLER_fields)
  from disj un pos neg same show ?thesis by simp
qed

theorem switch_handler_edge_invariant_witness:
  "switch_reachable (SWITCH_HANDLER 5 switches_initial)
   \<and> pos_transitions (SWITCH_HANDLER 3 (SWITCH_HANDLER 5 switches_initial)) = 2
   \<and> neg_transitions (SWITCH_HANDLER 3 (SWITCH_HANDLER 5 switches_initial)) = 4
   \<and> previous_inputs (SWITCH_HANDLER 3 (SWITCH_HANDLER 5 switches_initial)) = 3"
proof -
  have r: "switch_reachable (SWITCH_HANDLER 5 switches_initial)"
    by (rule switch_reachable.interrupt) (rule switch_reachable.initial)
  have c: "current_inputs (SWITCH_HANDLER 5 switches_initial) = 5"
    by (simp add: SWITCH_HANDLER_fields)
  show ?thesis
    using r switch_handler_edge_invariant [OF r, of 3]
    by (simp add: c SWITCH_HANDLER_fields)
qed

section \<open>Properties of command_queue.c\<close>

lemma wf_bounds:
  assumes "command_queue_wf q"
  shows "unat (head q) < 128" "unat (tail q) < 128" "length (queue q) = 128"
  using assms by (simp_all add: command_queue_wf_def word_less_nat_alt)

lemma get_size_full_iff:
  assumes "command_queue_wf q"
  shows "(command_queue_get_size q = COMMAND_QUEUE_SIZE) = (unat (tail q) = unat (head q) + 1)"
proof -
  have b: "unat (head q) < 128" "unat (tail q) < 128" using assms by (rule wf_bounds)+
  show ?thesis
  proof (cases "tail q \<le> head q")
    case True
    then have le: "unat (tail q) \<le> unat (head q)" by (simp add: word_le_nat_alt)
    have "unat (head q - tail q) = unat (head q) - unat (tail q)"
      using True by (rule unat_sub)
    then have "unat (head q - tail q) \<noteq> 128" using b by simp
    then have "head q - tail q \<noteq> 128" by (auto simp: word_unat_eq_iff)
    then show ?thesis using True le unfolding command_queue_get_size_def COMMAND_QUEUE_SIZE_def
      by simp
  next
    case False
    then have lt: "unat (head q) < unat (tail q)" by (simp add: word_le_nat_alt)
    then have "head q \<le> tail q" by (simp add: word_le_nat_alt)
    then have d: "unat (tail q - head q) = unat (tail q) - unat (head q)" by (rule unat_sub)
    have "(128 - (tail q - head q) + 1 = (128 :: 16 word)) = (tail q - head q = 1)"
      by (metis add_diff_cancel_left' diff_add_cancel)
    also have "\<dots> = (unat (tail q - head q) = 1)" by (simp add: word_unat_eq_iff)
    also have "\<dots> = (unat (tail q) = unat (head q) + 1)" using lt d by auto
    finally show ?thesis using False unfolding command_queue_get_size_def COMMAND_QUEUE_SIZE_def
      by simp
  qed
qed

lemma index_advance:
  assumes "unat (h :: 16 word) < 128"
  shows "unat (if h + 1 \<ge> COMMAND_QUEUE_SIZE then 0 else h + 1) = (unat h + 1) mod 128"
    and "(if h + 1 \<ge> COMMAND_QUEUE_SIZE then 0 else h + 1) < (128 :: 16 word)"
proof -
  have s: "unat (h + 1) = unat h + 1"
    using assms by (simp add: unat_plus_if')
  show "unat (if h + 1 \<ge> COMMAND_QUEUE_SIZE then 0 else h + 1) = (unat h + 1) mod 128"
  proof (cases "unat h = 127")
    case True
    then show ?thesis using s by (simp add: COMMAND_QUEUE_SIZE_def word_le_nat_alt)
  next
    case False
    then have "unat h + 1 < 128" using assms by simp
    then show ?thesis using s by (simp add: COMMAND_QUEUE_SIZE_def word_le_nat_alt)
  qed
  show "(if h + 1 \<ge> COMMAND_QUEUE_SIZE then 0 else h + 1) < (128 :: 16 word)"
    using assms s by (auto simp: COMMAND_QUEUE_SIZE_def word_le_nat_alt word_less_nat_alt)
qed


lemma push_full:
  assumes "command_queue_wf q" "unat (tail q) = unat (head q) + 1"
  shows "command_queue_push v q = (False, q)"
  using assms by (simp add: command_queue_push_def get_size_full_iff)

lemma push_not_full:
  assumes "command_queue_wf q" "unat (tail q) \<noteq> unat (head q) + 1"
  shows "fst (command_queue_push v q)"
    and "queue (snd (command_queue_push v q)) = (queue q)[unat (head q) := v]"
    and "unat (head (snd (command_queue_push v q))) = (unat (head q) + 1) mod 128"
    and "tail (snd (command_queue_push v q)) = tail q"
    and "command_queue_wf (snd (command_queue_push v q))"
proof -
  have b: "unat (head q) < 128" using assms(1) by (rule wf_bounds)
  have nf: "command_queue_get_size q \<noteq> COMMAND_QUEUE_SIZE"
    using assms by (simp add: get_size_full_iff)
  show "fst (command_queue_push v q)"
    using nf by (simp add: command_queue_push_def Let_def)
  show "queue (snd (command_queue_push v q)) = (queue q)[unat (head q) := v]"
    using nf by (simp add: command_queue_push_def Let_def)
  show "tail (snd (command_queue_push v q)) = tail q"
    using nf by (simp add: command_queue_push_def Let_def)
  have h: "head (snd (command_queue_push v q))
           = (if head q + 1 \<ge> COMMAND_QUEUE_SIZE then 0 else head q + 1)"
    using nf by (simp add: command_queue_push_def Let_def)
  show "unat (head (snd (command_queue_push v q))) = (unat (head q) + 1) mod 128"
    unfolding h using b by (rule index_advance(1))
  have "head (snd (command_queue_push v q)) < 128"
    unfolding h using b by (rule index_advance(2))
  then show "command_queue_wf (snd (command_queue_push v q))"
    using assms(1) \<open>tail (snd (command_queue_push v q)) = tail q\<close>
      \<open>queue (snd (command_queue_push v q)) = (queue q)[unat (head q) := v]\<close>
    by (simp add: command_queue_wf_def)
qed

lemma pop_empty:
  assumes "head q = tail q"
  shows "command_queue_pop q = (None, q)" "command_queue_get_size q = 0"
  using assms by (simp_all add: command_queue_pop_def command_queue_is_empty_def
      command_queue_get_size_def)

lemma pop_not_empty:
  assumes "command_queue_wf q" "unat (head q) \<noteq> unat (tail q)"
  shows "fst (command_queue_pop q) = Some (queue q ! unat (tail q))"
    and "queue (snd (command_queue_pop q)) = queue q"
    and "head (snd (command_queue_pop q)) = head q"
    and "unat (tail (snd (command_queue_pop q))) = (unat (tail q) + 1) mod 128"
    and "command_queue_wf (snd (command_queue_pop q))"
proof -
  have b: "unat (tail q) < 128" using assms(1) by (rule wf_bounds)
  have ne: "\<not> command_queue_is_empty q"
    using assms(2) by (auto simp: command_queue_is_empty_def)
  show "fst (command_queue_pop q) = Some (queue q ! unat (tail q))"
    using ne by (simp add: command_queue_pop_def Let_def)
  show q: "queue (snd (command_queue_pop q)) = queue q"
    using ne by (simp add: command_queue_pop_def Let_def)
  show h: "head (snd (command_queue_pop q)) = head q"
    using ne by (simp add: command_queue_pop_def Let_def)
  have t: "tail (snd (command_queue_pop q))
           = (if tail q + 1 \<ge> COMMAND_QUEUE_SIZE then 0 else tail q + 1)"
    using ne by (simp add: command_queue_pop_def Let_def)
  show "unat (tail (snd (command_queue_pop q))) = (unat (tail q) + 1) mod 128"
    unfolding t using b by (rule index_advance(1))
  have "tail (snd (command_queue_pop q)) < 128"
    unfolding t using b by (rule index_advance(2))
  then show "command_queue_wf (snd (command_queue_pop q))"
    using assms(1) q h by (simp add: command_queue_wf_def)
qed


lemma mod128: "x < 256 \<Longrightarrow> x mod 128 = (if x < 128 then x else x - (128::nat))"
  by (simp add: le_mod_geq)

lemma ring_arith:
  fixes H T :: nat
  assumes "H < 128" "T < 128" "(H + 128 - T) mod 128 \<le> 126"
  shows "T \<noteq> H + 1"
    and "((H + 1) mod 128 + 128 - T) mod 128 = (H + 128 - T) mod 128 + 1"
    and "(T + (H + 128 - T) mod 128) mod 128 = H"
proof -
  have a: "H + 128 - T < 256" "H + 1 < 256" using assms by simp_all
  from assms(3) have st: "(if H + 128 - T < 128 then H + 128 - T else H + 128 - T - 128) \<le> 126"
    by (simp only: mod128 [OF a(1)])
  show "T \<noteq> H + 1" using st assms(1,2) by (auto split: if_splits)
  have h1: "(H + 1) mod 128 = (if H + 1 < 128 then H + 1 else H + 1 - 128)"
    by (rule mod128 [OF a(2)])
  have b: "(H + 1) mod 128 + 128 - T < 256" by simp
  show "((H + 1) mod 128 + 128 - T) mod 128 = (H + 128 - T) mod 128 + 1"
    unfolding mod128 [OF b] mod128 [OF a(1)] unfolding h1
    using st assms(1,2) by (auto split: if_splits)
  have c: "T + (H + 128 - T) mod 128 < 256" using assms(2) by simp
  show "(T + (H + 128 - T) mod 128) mod 128 = H"
    unfolding mod128 [OF c] unfolding mod128 [OF a(1)]
    using assms(1,2) by (auto split: if_splits)
qed

lemma ring_arith_before:
  fixes H T k :: nat
  assumes "H < 128" "T < 128" "k < (H + 128 - T) mod 128"
  shows "(T + k) mod 128 \<noteq> H"
proof -
  have a: "H + 128 - T < 256" using assms by simp
  from assms(3) have k: "k < (if H + 128 - T < 128 then H + 128 - T else H + 128 - T - 128)"
    by (simp only: mod128 [OF a])
  then have "k < 128" using assms(1,2) by (auto split: if_splits)
  then have c: "T + k < 256" using assms(2) by simp
  show ?thesis
    unfolding mod128 [OF c] using k assms(1,2) by (auto split: if_splits)
qed

lemma push_contents:
  assumes "command_queue_wf q" "command_queue_stored q \<le> 126"
  shows "command_queue_push v q = (True, snd (command_queue_push v q))"
    and "command_queue_wf (snd (command_queue_push v q))"
    and "command_queue_stored (snd (command_queue_push v q)) = command_queue_stored q + 1"
    and "command_queue_contents (snd (command_queue_push v q)) = command_queue_contents q @ [v]"
proof -
  let ?q' = "snd (command_queue_push v q)"
  have b: "unat (head q) < 128" "unat (tail q) < 128" "length (queue q) = 128"
    using assms(1) by (rule wf_bounds)+
  have st: "(unat (head q) + 128 - unat (tail q)) mod 128 \<le> 126"
    using assms(2) by (simp add: command_queue_stored_def)
  have nf: "unat (tail q) \<noteq> unat (head q) + 1"
    using b(1,2) st by (rule ring_arith(1))
  note p = push_not_full [OF assms(1) nf, of v]
  show "command_queue_push v q = (True, ?q')"
    using p(1) by (simp add: prod_eq_iff)
  show "command_queue_wf ?q'" by (rule p(5))
  show s': "command_queue_stored ?q' = command_queue_stored q + 1"
    unfolding command_queue_stored_def p(3) p(4)
    using b(1,2) st by (rule ring_arith(2))
  have last: "(unat (tail q) + command_queue_stored q) mod 128 = unat (head q)"
    unfolding command_queue_stored_def using b(1,2) st by (rule ring_arith(3))
  have old: "map (\<lambda>k. (queue q)[unat (head q) := v] ! ((unat (tail q) + k) mod 128))
               [0..<command_queue_stored q]
             = command_queue_contents q"
    unfolding command_queue_contents_def
  proof (rule map_cong [OF refl])
    fix k assume "k \<in> set [0..<command_queue_stored q]"
    then have "k < (unat (head q) + 128 - unat (tail q)) mod 128"
      by (simp add: command_queue_stored_def)
    with b(1,2) have "(unat (tail q) + k) mod 128 \<noteq> unat (head q)"
      by (rule ring_arith_before)
    then show "(queue q)[unat (head q) := v] ! ((unat (tail q) + k) mod 128)
               = queue q ! ((unat (tail q) + k) mod 128)"
      by simp
  qed
  have new: "(queue q)[unat (head q) := v] ! ((unat (tail q) + command_queue_stored q) mod 128) = v"
    unfolding last using b(1,3) by simp
  show "command_queue_contents ?q' = command_queue_contents q @ [v]"
    unfolding command_queue_contents_def [of ?q'] s' p(2) p(4)
    using old new by simp
qed

lemma ring_arith_pop:
  fixes H T :: nat
  assumes "H < 128" "T < 128" "H \<noteq> T"
  shows "(H + 128 - T) mod 128 = Suc ((H + 128 - (T + 1) mod 128) mod 128)"
proof -
  have a: "H + 128 - T < 256" "T + 1 < 256" using assms by simp_all
  have t1: "(T + 1) mod 128 = (if T + 1 < 128 then T + 1 else T + 1 - 128)"
    by (rule mod128 [OF a(2)])
  have b: "H + 128 - (T + 1) mod 128 < 256" using assms by simp
  show ?thesis
    unfolding mod128 [OF b] mod128 [OF a(1)] unfolding t1
    using assms by (auto split: if_splits)
qed

lemma pop_contents:
  assumes "command_queue_wf q" "unat (head q) \<noteq> unat (tail q)"
  shows "command_queue_contents q
         = (queue q ! unat (tail q)) # command_queue_contents (snd (command_queue_pop q))"
proof -
  let ?q' = "snd (command_queue_pop q)"
  have b: "unat (head q) < 128" "unat (tail q) < 128"
    using assms(1) by (rule wf_bounds)+
  note p = pop_not_empty [OF assms]
  have s: "command_queue_stored q = Suc (command_queue_stored ?q')"
    unfolding command_queue_stored_def p(3) p(4)
    using b assms(2) by (rule ring_arith_pop)
  have shift: "\<And>k. (Suc (unat (tail q)) mod 128 + k) mod 128 = Suc (unat (tail q) + k) mod 128"
    by (simp add: mod_add_left_eq)
  have "command_queue_contents q
        = map (\<lambda>k. queue q ! ((unat (tail q) + k) mod 128)) (0 # map Suc [0..<command_queue_stored ?q'])"
    unfolding command_queue_contents_def [of q] s
    by (simp only: upt_conv_Cons zero_less_Suc map_Suc_upt [symmetric])
  also have "\<dots> = (queue q ! unat (tail q)) # command_queue_contents ?q'"
    using b(2) by (simp add: command_queue_contents_def p(2) p(4) shift comp_def)
  finally show ?thesis .
qed


lemma contents_length: "length (command_queue_contents q) = command_queue_stored q"
  by (simp add: command_queue_contents_def)

lemma stored_zero_iff:
  assumes "command_queue_wf q"
  shows "(command_queue_stored q = 0) = (unat (head q) = unat (tail q))"
proof -
  have b: "unat (head q) < 128" "unat (tail q) < 128"
    using assms by (rule wf_bounds)+
  then have a: "unat (head q) + 128 - unat (tail q) < 256" by simp
  show ?thesis
    unfolding command_queue_stored_def mod128 [OF a] using b by (auto split: if_splits)
qed

lemma pushes_contents:
  assumes "command_queue_wf q" "command_queue_stored q + length vs \<le> 127"
  shows "fst (command_queue_pushes vs q) = replicate (length vs) True
       \<and> command_queue_wf (snd (command_queue_pushes vs q))
       \<and> command_queue_contents (snd (command_queue_pushes vs q)) = command_queue_contents q @ vs"
  using assms
proof (induction vs arbitrary: q)
  case Nil
  then show ?case by simp
next
  case (Cons v vs)
  let ?q1 = "snd (command_queue_push v q)"
  from Cons.prems(2) have room: "command_queue_stored q \<le> 126" by simp
  note p = push_contents [OF Cons.prems(1) room, of v]
  have "command_queue_stored ?q1 + length vs \<le> 127"
    using Cons.prems(2) by (simp add: p(3))
  with p(2) have ih:
    "fst (command_queue_pushes vs ?q1) = replicate (length vs) True
     \<and> command_queue_wf (snd (command_queue_pushes vs ?q1))
     \<and> command_queue_contents (snd (command_queue_pushes vs ?q1)) = command_queue_contents ?q1 @ vs"
    by (rule Cons.IH)
  have step: "command_queue_pushes (v # vs) q
              = (True # fst (command_queue_pushes vs ?q1), snd (command_queue_pushes vs ?q1))"
    by (subst command_queue_pushes.simps(2), subst p(1)) (simp add: case_prod_beta)
  show ?case unfolding step using ih by (simp add: p(4))
qed

lemma pops_contents:
  assumes "command_queue_wf q" "n \<le> command_queue_stored q"
  shows "fst (command_queue_pops n q) = map Some (take n (command_queue_contents q))
       \<and> command_queue_wf (snd (command_queue_pops n q))
       \<and> command_queue_contents (snd (command_queue_pops n q)) = drop n (command_queue_contents q)"
  using assms
proof (induction n arbitrary: q)
  case 0
  then show ?case by simp
next
  case (Suc n)
  let ?q1 = "snd (command_queue_pop q)"
  from Suc.prems have ne: "unat (head q) \<noteq> unat (tail q)"
    using stored_zero_iff [of q] by auto
  note p = pop_not_empty [OF Suc.prems(1) ne]
  note c = pop_contents [OF Suc.prems(1) ne]
  have "Suc (command_queue_stored ?q1) = command_queue_stored q"
    using arg_cong [OF c, of length] by (simp add: contents_length)
  with Suc.prems(2) have "n \<le> command_queue_stored ?q1" by simp
  with p(5) have ih:
    "fst (command_queue_pops n ?q1) = map Some (take n (command_queue_contents ?q1))
     \<and> command_queue_wf (snd (command_queue_pops n ?q1))
     \<and> command_queue_contents (snd (command_queue_pops n ?q1)) = drop n (command_queue_contents ?q1)"
    by (rule Suc.IH)
  have step: "command_queue_pops (Suc n) q
              = (Some (queue q ! unat (tail q)) # fst (command_queue_pops n ?q1),
                 snd (command_queue_pops n ?q1))"
    using p(1) by (simp add: case_prod_beta)
  show ?case unfolding step using ih by (simp add: c)
qed

lemma init_wf:
  assumes "length (queue q) = 128"
  shows "command_queue_wf (command_queue_init q)"
    and "command_queue_stored (command_queue_init q) = 0"
    and "command_queue_contents (command_queue_init q) = []"
  using assms
  by (simp_all add: command_queue_wf_def command_queue_init_def command_queue_stored_def
        command_queue_contents_def)


lemma fifo_below_capacity:
  assumes "length (queue q) = 128" "length vs \<le> 127"
  shows "fst (command_queue_pushes vs (command_queue_init q)) = replicate (length vs) True"
    and "fst (command_queue_pops (length vs) (snd (command_queue_pushes vs (command_queue_init q))))
         = map Some vs"
    and "command_queue_is_empty
           (snd (command_queue_pops (length vs) (snd (command_queue_pushes vs (command_queue_init q)))))"
proof -
  let ?q0 = "command_queue_init q"
  let ?q1 = "snd (command_queue_pushes vs ?q0)"
  let ?q2 = "snd (command_queue_pops (length vs) ?q1)"
  note i = init_wf [OF assms(1)]
  have "command_queue_stored ?q0 + length vs \<le> 127" using assms(2) by (simp add: i(2))
  with i(1) have p:
    "fst (command_queue_pushes vs ?q0) = replicate (length vs) True
     \<and> command_queue_wf ?q1
     \<and> command_queue_contents ?q1 = command_queue_contents ?q0 @ vs"
    by (rule pushes_contents)
  then show "fst (command_queue_pushes vs ?q0) = replicate (length vs) True" by simp
  from p have c1: "command_queue_contents ?q1 = vs" and wf1: "command_queue_wf ?q1"
    by (simp_all add: i(3))
  have "length vs \<le> command_queue_stored ?q1"
    using arg_cong [OF c1, of length] by (simp add: contents_length)
  with wf1 have o:
    "fst (command_queue_pops (length vs) ?q1) = map Some (take (length vs) (command_queue_contents ?q1))
     \<and> command_queue_wf ?q2
     \<and> command_queue_contents ?q2 = drop (length vs) (command_queue_contents ?q1)"
    by (rule pops_contents)
  then show "fst (command_queue_pops (length vs) ?q1) = map Some vs" by (simp add: c1)
  from o have "command_queue_contents ?q2 = []" and wf2: "command_queue_wf ?q2"
    by (simp_all add: c1)
  have "command_queue_stored ?q2 = length (command_queue_contents ?q2)"
    by (simp only: contents_length)
  then have "command_queue_stored ?q2 = 0"
    by (simp only: \<open>command_queue_contents ?q2 = []\<close> list.size)
  then have "unat (head ?q2) = unat (tail ?q2)"
    using stored_zero_iff [OF wf2] by simp
  then show "command_queue_is_empty ?q2"
    by (simp add: command_queue_is_empty_def word_unat_eq_iff)
qed

lemma pushes_append:
  "command_queue_pushes (xs @ ys) q =
     (fst (command_queue_pushes xs q) @ fst (command_queue_pushes ys (snd (command_queue_pushes xs q))),
      snd (command_queue_pushes ys (snd (command_queue_pushes xs q))))"
  by (induction xs arbitrary: q) (simp_all add: case_prod_beta)

lemma stored_from_tail_zero:
  assumes "command_queue_wf q" "tail q = 0"
  shows "unat (head q) = command_queue_stored q"
  using wf_bounds(1) [OF assms(1)] assms(2) by (simp add: command_queue_stored_def)

lemma pushes_tail:
  "tail (snd (command_queue_pushes vs q)) = tail q"
proof (induction vs arbitrary: q)
  case Nil
  then show ?case by simp
next
  case (Cons v vs)
  have "tail (snd (command_queue_push v q)) = tail q"
    by (simp add: command_queue_push_def Let_def)
  then show ?case using Cons.IH [of "snd (command_queue_push v q)"] by (simp add: case_prod_beta)
qed

lemma overflow_at_capacity:
  assumes "length (queue q) = 128" "length vs = 128"
  shows "fst (command_queue_pushes vs (command_queue_init q)) = replicate 128 True"
    and "head (snd (command_queue_pushes vs (command_queue_init q))) = 0"
    and "tail (snd (command_queue_pushes vs (command_queue_init q))) = 0"
proof -
  from assms(2) obtain xs v where vs: "vs = xs @ [v]" and n: "length xs = 127"
    by (cases vs rule: rev_cases) simp_all
  let ?q0 = "command_queue_init q"
  let ?q1 = "snd (command_queue_pushes xs ?q0)"
  note i = init_wf [OF assms(1)]
  have "command_queue_stored ?q0 + length xs \<le> 127" unfolding i(2) n by simp
  with i(1) have p:
    "fst (command_queue_pushes xs ?q0) = replicate (length xs) True
     \<and> command_queue_wf ?q1
     \<and> command_queue_contents ?q1 = command_queue_contents ?q0 @ xs"
    by (rule pushes_contents)
  then have wf1: "command_queue_wf ?q1" and r1: "fst (command_queue_pushes xs ?q0) = replicate 127 True"
    and c1: "command_queue_contents ?q1 = xs"
    by (simp_all add: n i(3))
  have t1: "tail ?q1 = 0" by (simp add: pushes_tail command_queue_init_def)
  have "command_queue_stored ?q1 = length (command_queue_contents ?q1)"
    by (simp only: contents_length)
  then have "command_queue_stored ?q1 = 127" by (simp only: c1 n)
  then have h1: "unat (head ?q1) = 127"
    using stored_from_tail_zero [OF wf1 t1] by simp
  have nf: "unat (tail ?q1) \<noteq> unat (head ?q1) + 1" by (simp add: t1 h1)
  note l = push_not_full [OF wf1 nf, of v]
  have "unat (head (snd (command_queue_push v ?q1))) = 0"
    using l(3) by (simp add: h1)
  then have h2: "head (snd (command_queue_push v ?q1)) = 0"
    by (simp add: word_unat_eq_iff)
  have all: "command_queue_pushes vs ?q0 =
        (replicate 127 True @ [fst (command_queue_push v ?q1)],
         snd (command_queue_push v ?q1))"
    unfolding vs pushes_append by (simp add: r1 case_prod_beta)
  have "(128::nat) = Suc 127" by simp
  then have rep: "replicate 127 True @ [True] = replicate 128 True"
    by (simp only: replicate_Suc replicate_append_same)
  show "fst (command_queue_pushes vs ?q0) = replicate 128 True"
    unfolding all using l(1) by (simp add: rep)
  show "head (snd (command_queue_pushes vs ?q0)) = 0"
    unfolding all using h2 by simp
  show "tail (snd (command_queue_pushes vs ?q0)) = 0"
    by (simp add: pushes_tail command_queue_init_def)
qed

text \<open>
  Claim C1. From an initialised queue, any pushes \<^verbatim>\<open>p1..pn\<close> with n at most 128
  followed by pops all succeed, and the pops give the pointers in push order; a push
  onto a full queue and a pop from an empty queue fail and change nothing. The code
  keeps this up to n = 127 (\<^verbatim>\<open>fifo_below_capacity\<close>, \<^verbatim>\<open>push_full\<close>, \<^verbatim>\<open>pop_empty\<close>)
  and breaks it at n = 128: the 128th push is accepted, \<^verbatim>\<open>head\<close> wraps onto
  \<^verbatim>\<open>tail\<close>, and the queue that was just filled reports size 0 and refuses to pop.
\<close>

theorem queue_loses_128_pushes:
  "fst (command_queue_pushes [1..<129]
          (command_queue_init \<lparr>queue = replicate 128 (0::nat), head = 0, tail = 0\<rparr>))
     = replicate 128 True
   \<and> command_queue_is_empty (snd (command_queue_pushes [1..<129]
          (command_queue_init \<lparr>queue = replicate 128 (0::nat), head = 0, tail = 0\<rparr>)))
   \<and> command_queue_get_size (snd (command_queue_pushes [1..<129]
          (command_queue_init \<lparr>queue = replicate 128 (0::nat), head = 0, tail = 0\<rparr>))) = 0
   \<and> fst (command_queue_pop (snd (command_queue_pushes [1..<129]
          (command_queue_init \<lparr>queue = replicate 128 (0::nat), head = 0, tail = 0\<rparr>)))) = None"
proof -
  let ?q = "\<lparr>queue = replicate 128 (0::nat), head = 0, tail = 0\<rparr>"
  have a: "length (queue ?q) = 128" "length [1..<129::nat] = 128" by simp_all
  note o = overflow_at_capacity [OF a]
  have e: "head (snd (command_queue_pushes [1..<129] (command_queue_init ?q)))
           = tail (snd (command_queue_pushes [1..<129] (command_queue_init ?q)))"
    by (simp only: o(2) o(3))
  show ?thesis
    using o(1) pop_empty [OF e] e by (simp add: command_queue_is_empty_def)
qed

section \<open>Properties of chessboard.c: squares and indices\<close>

lemma rank_char_offset:
  assumes "r = 0 \<or> r = 1 \<or> r = 2 \<or> r = 3 \<or> r = 4 \<or> r = 5 \<or> r = 6 \<or> r = (7::int)"
  shows "chessboard_square_to_index file (char_of (r + of_char CHR ''1''))
         = of_int (8 * r) + chessboard_square_to_index file CHR ''?''"
  using assms
  by (elim disjE) (simp_all add: chessboard_square_to_index_def char_of_def Let_def)

lemma file_char_offset:
  assumes "f = 0 \<or> f = 1 \<or> f = 2 \<or> f = 3 \<or> f = 4 \<or> f = 5 \<or> f = 6 \<or> f = (7::int)"
  shows "chessboard_square_to_index (char_of (f + of_char CHR ''a'')) CHR ''?'' = of_int f"
  using assms
  by (elim disjE) (simp_all add: chessboard_square_to_index_def char_of_def Let_def)

lemma index_to_square_in_range:
  "index \<le> 63 \<Longrightarrow>
   chessboard_index_to_square index =
     [char_of (uint index mod 8 + of_char CHR ''a''), char_of (uint index div 8 + of_char CHR ''1'')]"
  by (simp add: chessboard_index_to_square_def Let_def not_less[symmetric])

text \<open>
  Claim C8. For every index from 0 to 63, \<^verbatim>\<open>chessboard_square_to_index\<close> applied to
  the file and rank characters that \<^verbatim>\<open>chessboard_index_to_square\<close> writes gives the
  index back; for every index above 63, \<^verbatim>\<open>chessboard_index_to_square\<close> writes the
  square \<^verbatim>\<open>??\<close>.
\<close>

theorem square_index_round_trip:
  "(index \<le> 63 \<longrightarrow>
      chessboard_square_to_index (chessboard_index_to_square index ! 0)
        (chessboard_index_to_square index ! 1) = index)
   \<and> (index > 63 \<longrightarrow> chessboard_index_to_square index = ''??'')"
proof (intro conjI impI)
  assume le: "index \<le> 63"
  define r where "r = uint index div 8"
  define f where "f = uint index mod 8"
  from le have "uint index \<le> 63" by (simp add: word_le_def)
  moreover have "0 \<le> uint index" by simp
  ultimately have r: "r = 0 \<or> r = 1 \<or> r = 2 \<or> r = 3 \<or> r = 4 \<or> r = 5 \<or> r = 6 \<or> r = 7"
    and f: "f = 0 \<or> f = 1 \<or> f = 2 \<or> f = 3 \<or> f = 4 \<or> f = 5 \<or> f = 6 \<or> f = 7"
    unfolding r_def f_def by presburger+
  have "chessboard_square_to_index (chessboard_index_to_square index ! 0)
          (chessboard_index_to_square index ! 1)
        = chessboard_square_to_index (char_of (f + of_char CHR ''a'')) (char_of (r + of_char CHR ''1''))"
    by (simp add: index_to_square_in_range [OF le] r_def f_def)
  also have "\<dots> = of_int (8 * r) + of_int f"
    by (simp only: rank_char_offset [OF r] file_char_offset [OF f])
  also have "\<dots> = of_int (8 * r + f)" by simp
  also have "8 * r + f = uint index" unfolding r_def f_def by simp
  also have "of_int (uint index) = index" by simp
  finally show "chessboard_square_to_index (chessboard_index_to_square index ! 0)
          (chessboard_index_to_square index ! 1) = index" .
next
  assume "index > 63"
  then show "chessboard_index_to_square index = ''??''"
    by (simp add: chessboard_index_to_square_def)
qed

theorem square_index_round_trip_witness:
  "(28 :: 8 word) \<le> 63 \<and> chessboard_index_to_square 28 = ''e4''
   \<and> chessboard_square_to_index CHR ''e'' CHR ''4'' = 28
   \<and> (64 :: 8 word) > 63 \<and> chessboard_index_to_square 64 = ''??''"
proof -
  have sq: "chessboard_index_to_square 28 = ''e4''"
    by (simp add: chessboard_index_to_square_def char_of_def Let_def)
  show ?thesis
    using square_index_round_trip [of 28] square_index_round_trip [of 64]
    by (simp add: sq)
qed

section \<open>Properties of chessboard.c: the move of the human\<close>

lemma set_changed_squares: "set (changed_squares w) = {n. bit w n}"
  by (auto simp: changed_squares_def dest: bit_imp_le_length)

lemma changed_squares_sorted: "sorted (changed_squares w)" "distinct (changed_squares w)"
  by (simp_all add: changed_squares_def sorted_wrt_filter)

lemma card_changed_squares: "card {n. bit w n} = length (changed_squares w)"
  using distinct_card [OF changed_squares_sorted(2), of w] by (simp add: set_changed_squares)

lemma changed_squares_length: "length (changed_squares w) \<le> 64"
  unfolding changed_squares_def using length_filter_le [of "bit w" "[0..<64]"] by simp

lemma fold_if_filter:
  "fold (\<lambda>i bc. if P i then g i bc else bc) xs bc = fold g (filter P xs) bc"
  by (induction xs arbitrary: bc) simp_all

lemma utils_get_board_changes_fold:
  "utils_get_board_changes w bc = fold (\<lambda>i. record_board_change (of_nat i)) (changed_squares w) bc"
  by (simp add: utils_get_board_changes_def changed_squares_def fold_if_filter)

lemma num_changes_record: "num_changes (record_board_change i bc) = num_changes bc + 1"
  by (simp add: record_board_change_def Let_def)

lemma num_changes_fold:
  "num_changes (fold (\<lambda>i. record_board_change (of_nat i)) xs bc) = num_changes bc + of_nat (length xs)"
  by (induction xs arbitrary: bc) (simp_all add: num_changes_record)

lemma num_changes_get:
  "num_changes bc = 0 \<Longrightarrow>
   num_changes (utils_get_board_changes w bc) = of_nat (length (changed_squares w))"
  by (simp add: utils_get_board_changes_fold num_changes_fold)

lemma num_changes_eq_iff:
  assumes "k \<le> 64" "n \<le> 64"
  shows "(of_nat k :: 8 word) = of_nat n \<longleftrightarrow> k = n"
proof -
  have "unat (of_nat k :: 8 word) = k" "unat (of_nat n :: 8 word) = n"
    using assms by (simp_all add: unat_of_nat)
  then show ?thesis by metis
qed


lemma num_changes_of_difference:
  "num_changes (utils_get_board_changes w
     \<lparr>num_changes = 0, index1 = 0xFF, index2 = 0xFF, index3 = 0xFF, index4 = 0xFF\<rparr>)
   = of_nat (length (changed_squares w))"
  by (simp add: num_changes_get)

lemma num_changes_is:
  assumes "n \<le> 64"
  shows "num_changes (utils_get_board_changes w
           \<lparr>num_changes = 0, index1 = 0xFF, index2 = 0xFF, index3 = 0xFF, index4 = 0xFF\<rparr>)
         = of_nat n \<longleftrightarrow> length (changed_squares w) = n"
  unfolding num_changes_of_difference
  by (rule num_changes_eq_iff [OF changed_squares_length assms])

lemma presence_bit_test: "(drop_bit n (w :: 64 word) AND 0x01 \<noteq> 0) = bit w n"
  by (simp add: bit_iff_odd_drop_bit and_one_eq odd_iff_mod_2_eq_one)

lemma index_to_square_length: "length (chessboard_index_to_square index) = 2"
  by (simp add: chessboard_index_to_square_def Let_def)

lemma two_squares:
  assumes "length a = 2" "length b = 2"
  shows "[a ! 0, a ! Suc 0, b ! 0, b ! Suc 0, c] = a @ b @ [c]"
proof -
  from assms obtain a0 a1 b0 b1 where "a = [a0, a1]" "b = [b0, b1]"
    by (auto simp: eval_nat_numeral length_Suc_conv)
  then show ?thesis by simp
qed

lemma get_move_upwards:
  "chessboard_get_move cf previous current buf
   = chessboard_get_move_scan [0..<64] cf previous current buf"
  by (simp add: chessboard_get_move_def chessboard_get_move_scan_def
        utils_get_board_changes_def utils_get_board_changes_scan_def)

lemma scan_pair:
  fixes w :: "64 word"
  assumes "distinct scan" "set scan = {0..<64}" "{n. bit w n} = {i, j}" "i \<noteq> j"
  shows "filter (bit w) scan = [i, j] \<or> filter (bit w) scan = [j, i]"
proof -
  have d: "distinct (filter (bit w) scan)"
    using assms(1) by simp
  have "set (filter (bit w) scan) = {n. bit w n}"
    using assms(2) by (auto dest: bit_imp_le_length)
  then have s: "set (filter (bit w) scan) = {i, j}"
    using assms(3) by simp
  have "length (filter (bit w) scan) = card {i, j}"
    using distinct_card [OF d] s by simp
  then have "length (filter (bit w) scan) = 2"
    using assms(4) by simp
  then obtain a b where ab: "filter (bit w) scan = [a, b]"
    by (auto simp: eval_nat_numeral length_Suc_conv)
  with s have "{a, b} = {i, j}" by simp
  then have "a = i \<and> b = j \<or> a = j \<and> b = i"
    by (auto simp: doubleton_eq_iff)
  with ab show ?thesis by auto
qed

lemma changes_scan_two:
  assumes "filter (bit w) scan = [i, j]"
  shows "utils_get_board_changes_scan scan w
           \<lparr>num_changes = 0, index1 = 0xFF, index2 = 0xFF, index3 = 0xFF, index4 = 0xFF\<rparr>
         = \<lparr>num_changes = 2, index1 = of_nat i, index2 = of_nat j, index3 = 0xFF, index4 = 0xFF\<rparr>"
  by (simp add: utils_get_board_changes_scan_def fold_if_filter assms record_board_change_def Let_def)

lemma get_move_scan_pair:
  assumes "filter (bit (board_presence previous XOR board_presence current)) scan = [i, j]"
  shows "chessboard_get_move_scan scan cf previous current buf =
     (True,
      (if bit (board_presence previous) i
       then chessboard_index_to_square (of_nat i) @ chessboard_index_to_square (of_nat j)
       else chessboard_index_to_square (of_nat j) @ chessboard_index_to_square (of_nat i))
      @ ''_'')"
proof -
  have "i \<in> set (filter (bit (board_presence previous XOR board_presence current)) scan)"
    by (simp only: assms) simp
  then have "bit (board_presence previous XOR board_presence current) i"
    by simp
  then have "i < 64"
    by (auto dest: bit_imp_le_length)
  then have ui: "unat (of_nat i :: 8 word) = i" by (simp add: unat_of_nat)
  show ?thesis
    unfolding chessboard_get_move_scan_def Let_def changes_scan_two [OF assms]
    by (simp add: ui presence_bit_test two_squares index_to_square_length)
qed

lemma get_move_scan_two:
  assumes "distinct scan" and "set scan = {0..<64}"
    and "{n. bit (board_presence previous XOR board_presence current) n} = {src, dst}"
    and "src \<noteq> dst"
  shows "chessboard_get_move_scan scan cf previous current buf =
           (True, chessboard_index_to_square (of_nat src) @ chessboard_index_to_square (of_nat dst)
                  @ ''_'')
         \<and> (bit (board_presence previous) src \<or> \<not> bit (board_presence previous) dst)
         \<or> chessboard_get_move_scan scan cf previous current buf =
           (True, chessboard_index_to_square (of_nat dst) @ chessboard_index_to_square (of_nat src)
                  @ ''_'')
         \<and> (bit (board_presence previous) dst \<or> \<not> bit (board_presence previous) src)"
proof -
  from scan_pair [OF assms]
  have "filter (bit (board_presence previous XOR board_presence current)) scan = [src, dst]
        \<or> filter (bit (board_presence previous XOR board_presence current)) scan = [dst, src]" .
  then show ?thesis
  proof
    assume "filter (bit (board_presence previous XOR board_presence current)) scan = [src, dst]"
    from get_move_scan_pair [OF this, of cf buf] show ?thesis
      by (cases "bit (board_presence previous) src") simp_all
  next
    assume "filter (bit (board_presence previous XOR board_presence current)) scan = [dst, src]"
    from get_move_scan_pair [OF this, of cf buf] show ?thesis
      by (cases "bit (board_presence previous) dst") simp_all
  qed
qed

text \<open>
  Claim C4, amended. For all previous and current boards whose presence masks differ
  in exactly 2 bit positions, and whatever the order in which the helper scans the
  squares (any list \<^verbatim>\<open>scan\<close> that holds each of the 64 squares once),
  \<^verbatim>\<open>chessboard_get_move\<close> returns true and writes a 5-character move whose fifth
  character is \<^verbatim>\<open>_\<close> and whose first four characters are the two differing squares. When exactly one differing index is set in the previous presence mask, the
  first two characters are its square and the next two the other differing square.
  When at least one is set, the first two characters are the square of a differing
  index set in the previous presence mask.
\<close>

theorem get_move_two_changes:
  assumes "distinct scan" and "set scan = {0..<64}"
    and "{n. bit (board_presence previous XOR board_presence current) n} = {src, dst}"
    and "src \<noteq> dst"
  shows "fst (chessboard_get_move_scan scan cf previous current buf)
       \<and> length (snd (chessboard_get_move_scan scan cf previous current buf)) = 5
       \<and> snd (chessboard_get_move_scan scan cf previous current buf) ! 4 = CHR ''_''
       \<and> (snd (chessboard_get_move_scan scan cf previous current buf)
            = chessboard_index_to_square (of_nat src) @ chessboard_index_to_square (of_nat dst)
              @ ''_''
          \<or> snd (chessboard_get_move_scan scan cf previous current buf)
            = chessboard_index_to_square (of_nat dst) @ chessboard_index_to_square (of_nat src)
              @ ''_'')
       \<and> (bit (board_presence previous) src \<and> \<not> bit (board_presence previous) dst \<longrightarrow>
          snd (chessboard_get_move_scan scan cf previous current buf)
            = chessboard_index_to_square (of_nat src) @ chessboard_index_to_square (of_nat dst)
              @ ''_'')
       \<and> (bit (board_presence previous) src \<or> bit (board_presence previous) dst \<longrightarrow>
          (bit (board_presence previous) src
           \<and> snd (chessboard_get_move_scan scan cf previous current buf)
             = chessboard_index_to_square (of_nat src) @ chessboard_index_to_square (of_nat dst)
               @ ''_'')
          \<or> (bit (board_presence previous) dst
              \<and> snd (chessboard_get_move_scan scan cf previous current buf)
                = chessboard_index_to_square (of_nat dst) @ chessboard_index_to_square (of_nat src)
                  @ ''_''))"
proof -
  note cases = get_move_scan_two [OF assms, of cf buf]
  have five: "length (chessboard_index_to_square (of_nat src)
                @ chessboard_index_to_square (of_nat dst) @ ''_'') = 5"
    "length (chessboard_index_to_square (of_nat dst)
                @ chessboard_index_to_square (of_nat src) @ ''_'') = 5"
    by (simp_all add: index_to_square_length)
  have last: "(chessboard_index_to_square (of_nat src)
                @ chessboard_index_to_square (of_nat dst) @ ''_'') ! 4 = CHR ''_''"
    "(chessboard_index_to_square (of_nat dst)
                @ chessboard_index_to_square (of_nat src) @ ''_'') ! 4 = CHR ''_''"
    by (simp_all add: index_to_square_length nth_append)
  from cases show ?thesis
  proof
    assume a: "chessboard_get_move_scan scan cf previous current buf =
           (True, chessboard_index_to_square (of_nat src) @ chessboard_index_to_square (of_nat dst)
                  @ ''_'')
         \<and> (bit (board_presence previous) src \<or> \<not> bit (board_presence previous) dst)"
    then have r: "chessboard_get_move_scan scan cf previous current buf =
           (True, chessboard_index_to_square (of_nat src) @ chessboard_index_to_square (of_nat dst)
                  @ ''_'')"
      and b: "bit (board_presence previous) src \<or> \<not> bit (board_presence previous) dst"
      by blast+
    show ?thesis
      unfolding r fst_conv snd_conv five last using b by blast
  next
    assume a: "chessboard_get_move_scan scan cf previous current buf =
           (True, chessboard_index_to_square (of_nat dst) @ chessboard_index_to_square (of_nat src)
                  @ ''_'')
         \<and> (bit (board_presence previous) dst \<or> \<not> bit (board_presence previous) src)"
    then have r: "chessboard_get_move_scan scan cf previous current buf =
           (True, chessboard_index_to_square (of_nat dst) @ chessboard_index_to_square (of_nat src)
                  @ ''_'')"
      and b: "bit (board_presence previous) dst \<or> \<not> bit (board_presence previous) src"
      by blast+
    show ?thesis
      unfolding r fst_conv snd_conv five last using b by blast
  qed
qed

lemma start_board_presence: "board_presence start_board = 0xFFFF00000000FFFF"
  by (simp add: start_board_def chessboard_init_def Let_def)

lemma squares_e2_e4:
  "chessboard_index_to_square 12 = ''e2''" "chessboard_index_to_square 28 = ''e4''"
  "chessboard_index_to_square 27 = ''d4''"
  by (simp_all add: chessboard_index_to_square_def char_of_def Let_def)

lemma difference_e2_e4: "changed_squares (0xFFFF00000000FFFF XOR 0xFFFF00001000EFFF) = [12, 28]"
  by code_simp

lemma difference_d4_e4: "changed_squares (0xFFFF00000000FFFF XOR 0xFFFF00001800FFFF) = [27, 28]"
  by code_simp

lemma start_bits:
  "bit (0xFFFF00000000FFFF :: 64 word) 12" "\<not> bit (0xFFFF00000000FFFF :: 64 word) 28"
  "\<not> bit (0xFFFF00000000FFFF :: 64 word) 27"
  by simp_all

lemma scan_upwards: "distinct [0..<64]" "set [0..<64] = {0..<64}"
  by simp_all

lemma scan_downwards: "distinct (rev [0..<64])" "set (rev [0..<64]) = {0..<64}"
  by simp_all

theorem get_move_two_changes_witness:
  "distinct (rev [0..<64]) \<and> set (rev [0..<64]) = {0..<64}
   \<and> {n. bit (board_presence start_board XOR board_presence sample_after_e2e4) n} = {12, 28}
   \<and> bit (board_presence start_board) 12 \<and> \<not> bit (board_presence start_board) 28
   \<and> chessboard_get_move_scan (rev [0..<64]) sample_castle_footprints start_board sample_after_e2e4
       ''?????''
     = (True, ''e2e4_'')
   \<and> distinct [0..<64] \<and> set [0..<64] = {0..<64}
   \<and> chessboard_get_move_scan [0..<64] sample_castle_footprints start_board sample_after_e2e4
       ''?????''
     = (True, ''e2e4_'')
   \<and> chessboard_get_move sample_castle_footprints start_board sample_after_e2e4 ''?????''
     = (True, ''e2e4_'')"
proof -
  have d: "{n. bit (board_presence start_board XOR board_presence sample_after_e2e4) n} = {12, 28}"
    using set_changed_squares [of "0xFFFF00000000FFFF XOR 0xFFFF00001000EFFF"]
    by (simp only: difference_e2_e4 start_board_presence sample_after_e2e4_def
          chess_board_t.simps list.set) auto
  have ne: "(12::nat) \<noteq> 28" by simp
  show ?thesis
    using d get_move_two_changes [OF scan_downwards d ne, of sample_castle_footprints "''?????''"]
      get_move_two_changes [OF scan_upwards d ne, of sample_castle_footprints "''?????''"]
    by (simp add: get_move_upwards start_board_presence start_bits squares_e2_e4 prod_eq_iff)
qed

text \<open>
  Claim C4 as stated covers every difference of 2 bits. With two pieces added to the
  starting position, on d4 and e4, neither differing square is set in the previous
  mask; the function returns true with a move whose source square was empty:
  \<^verbatim>\<open>e4d4_\<close> when the helper scans upwards, \<^verbatim>\<open>d4e4_\<close> when it scans downwards.
\<close>

theorem get_move_two_pieces_added:
  "changed_squares (board_presence start_board XOR 0xFFFF00001800FFFF) = [27, 28]
   \<and> \<not> bit (board_presence start_board) 27 \<and> \<not> bit (board_presence start_board) 28
   \<and> chessboard_get_move sample_castle_footprints start_board
        (start_board\<lparr>board_presence := 0xFFFF00001800FFFF\<rparr>) ''?????''
     = (True, ''e4d4_'')
   \<and> chessboard_get_move_scan [0..<64] sample_castle_footprints start_board
        (start_board\<lparr>board_presence := 0xFFFF00001800FFFF\<rparr>) ''?????''
     = (True, ''e4d4_'')
   \<and> chessboard_get_move_scan (rev [0..<64]) sample_castle_footprints start_board
        (start_board\<lparr>board_presence := 0xFFFF00001800FFFF\<rparr>) ''?????''
     = (True, ''d4e4_'')"
proof -
  have p: "board_presence (start_board\<lparr>board_presence := 0xFFFF00001800FFFF\<rparr>)
             = 0xFFFF00001800FFFF"
    by simp
  have up: "filter (bit (board_presence start_board
             XOR board_presence (start_board\<lparr>board_presence := 0xFFFF00001800FFFF\<rparr>))) [0..<64]
            = [27, 28]"
    using difference_d4_e4 by (simp only: p start_board_presence changed_squares_def)
  have "filter (bit (board_presence start_board
             XOR board_presence (start_board\<lparr>board_presence := 0xFFFF00001800FFFF\<rparr>)))
          (rev [0..<64])
        = rev [27, 28]"
    by (simp only: rev_filter [symmetric] up)
  then have down: "filter (bit (board_presence start_board
             XOR board_presence (start_board\<lparr>board_presence := 0xFFFF00001800FFFF\<rparr>)))
          (rev [0..<64])
        = [28, 27]"
    by simp
  have c0: "changed_squares (board_presence start_board XOR 0xFFFF00001800FFFF) = [27, 28]"
    by (simp only: start_board_presence difference_d4_e4)
  show ?thesis
    using c0 get_move_scan_pair [OF up, of sample_castle_footprints "''?????''"]
      get_move_scan_pair [OF down, of sample_castle_footprints "''?????''"]
    by (simp add: get_move_upwards start_board_presence start_bits squares_e2_e4)
qed


lemma num_changes_two:
  "num_changes (utils_get_board_changes w
     \<lparr>num_changes = 0, index1 = 0xFF, index2 = 0xFF, index3 = 0xFF, index4 = 0xFF\<rparr>) = 2
   \<longleftrightarrow> length (changed_squares w) = 2"
  using num_changes_is [of 2 w] by simp

lemma num_changes_four:
  "num_changes (utils_get_board_changes w
     \<lparr>num_changes = 0, index1 = 0xFF, index2 = 0xFF, index3 = 0xFF, index4 = 0xFF\<rparr>) = 4
   \<longleftrightarrow> length (changed_squares w) = 4"
  using num_changes_is [of 4 w] by simp

lemma get_move_four:
  assumes "length (changed_squares (board_presence previous XOR board_presence current)) = 4"
  shows "chessboard_get_move cf previous current buf =
     (if board_presence previous XOR board_presence current = CASTLE_WHITE_K cf then (True, ''e1g1_'')
      else if board_presence previous XOR board_presence current = CASTLE_WHITE_Q cf then (True, ''e1c1_'')
      else if board_presence previous XOR board_presence current = CASTLE_BLACK_K cf then (True, ''e8g8_'')
      else if board_presence previous XOR board_presence current = CASTLE_BLACK_Q cf then (True, ''e8c8_'')
      else (False, buf))"
  unfolding chessboard_get_move_def Let_def num_changes_two num_changes_four
  using assms by simp

lemma get_move_other:
  assumes "length (changed_squares (board_presence previous XOR board_presence current)) \<noteq> 2"
    and "length (changed_squares (board_presence previous XOR board_presence current)) \<noteq> 4"
  shows "chessboard_get_move cf previous current buf = (False, buf)"
  unfolding chessboard_get_move_def Let_def num_changes_two num_changes_four
  using assms by simp

text \<open>
  Claim C5. When the difference of the presence masks has exactly 4 bits set,
  \<^verbatim>\<open>chessboard_get_move\<close> returns true with the king move \<^verbatim>\<open>e1g1_\<close>, \<^verbatim>\<open>e1c1_\<close>,
  \<^verbatim>\<open>e8g8_\<close> or \<^verbatim>\<open>e8c8_\<close> when the difference is the corresponding castling footprint,
  and returns false, leaving the buffer alone, for every other pattern of 4 bits. When
  the number of bits set is neither 2 nor 4, it returns false.
\<close>

theorem get_move_castling_or_illegal:
  "(card {n. bit (board_presence previous XOR board_presence current) n} = 4 \<longrightarrow>
      chessboard_get_move cf previous current buf =
        (if board_presence previous XOR board_presence current = CASTLE_WHITE_K cf
           then (True, ''e1g1_'')
         else if board_presence previous XOR board_presence current = CASTLE_WHITE_Q cf
           then (True, ''e1c1_'')
         else if board_presence previous XOR board_presence current = CASTLE_BLACK_K cf
           then (True, ''e8g8_'')
         else if board_presence previous XOR board_presence current = CASTLE_BLACK_Q cf
           then (True, ''e8c8_'')
         else (False, buf))
      \<and> fst (chessboard_get_move cf previous current buf) =
          (board_presence previous XOR board_presence current
             \<in> {CASTLE_WHITE_K cf, CASTLE_WHITE_Q cf, CASTLE_BLACK_K cf, CASTLE_BLACK_Q cf}))
   \<and> (card {n. bit (board_presence previous XOR board_presence current) n} \<noteq> 2
        \<and> card {n. bit (board_presence previous XOR board_presence current) n} \<noteq> 4 \<longrightarrow>
      chessboard_get_move cf previous current buf = (False, buf))"
proof (intro conjI impI)
  assume "card {n. bit (board_presence previous XOR board_presence current) n} = 4"
  then have four: "length (changed_squares (board_presence previous XOR board_presence current)) = 4"
    by (simp only: card_changed_squares)
  show chain: "chessboard_get_move cf previous current buf =
        (if board_presence previous XOR board_presence current = CASTLE_WHITE_K cf
           then (True, ''e1g1_'')
         else if board_presence previous XOR board_presence current = CASTLE_WHITE_Q cf
           then (True, ''e1c1_'')
         else if board_presence previous XOR board_presence current = CASTLE_BLACK_K cf
           then (True, ''e8g8_'')
         else if board_presence previous XOR board_presence current = CASTLE_BLACK_Q cf
           then (True, ''e8c8_'')
         else (False, buf))"
    using four by (rule get_move_four)
  show "fst (chessboard_get_move cf previous current buf) =
          (board_presence previous XOR board_presence current
             \<in> {CASTLE_WHITE_K cf, CASTLE_WHITE_Q cf, CASTLE_BLACK_K cf, CASTLE_BLACK_Q cf})"
    unfolding chain by auto
next
  assume "card {n. bit (board_presence previous XOR board_presence current) n} \<noteq> 2
        \<and> card {n. bit (board_presence previous XOR board_presence current) n} \<noteq> 4"
  then have "length (changed_squares (board_presence previous XOR board_presence current)) \<noteq> 2"
    and "length (changed_squares (board_presence previous XOR board_presence current)) \<noteq> 4"
    unfolding card_changed_squares by blast+
  then show "chessboard_get_move cf previous current buf = (False, buf)"
    by (rule get_move_other)
qed

lemma difference_castling: "changed_squares (0xFFFF00000000FF9F XOR 0xFFFF00000000FF6F) = [4, 5, 6, 7]"
  by code_simp

lemma difference_lifted: "changed_squares (0xFFFF00000000FFFF XOR 0xFFFF00000000EFFF) = [12]"
  by code_simp

lemma sample_presences:
  "board_presence sample_before_castling = 0xFFFF00000000FF9F"
  "board_presence sample_after_castling = 0xFFFF00000000FF6F"
  "board_presence sample_piece_lifted = 0xFFFF00000000EFFF"
  "board_presence sample_after_e2e4 = 0xFFFF00001000EFFF"
  by (simp_all add: sample_before_castling_def sample_after_castling_def
        sample_piece_lifted_def sample_after_e2e4_def)

theorem get_move_castling_or_illegal_witness:
  "card {n. bit (board_presence sample_before_castling XOR board_presence sample_after_castling) n} = 4
   \<and> chessboard_get_move sample_castle_footprints sample_before_castling sample_after_castling
        ''?????'' = (True, ''e1g1_'')
   \<and> card {n. bit (board_presence start_board XOR board_presence sample_piece_lifted) n} = 1
   \<and> chessboard_get_move sample_castle_footprints start_board sample_piece_lifted ''?????''
       = (False, ''?????'')"
proof -
  have c4: "card {n. bit (board_presence sample_before_castling
              XOR board_presence sample_after_castling) n} = 4"
    unfolding card_changed_squares sample_presences difference_castling by simp
  have c1: "card {n. bit (board_presence start_board XOR board_presence sample_piece_lifted) n} = 1"
    unfolding card_changed_squares sample_presences start_board_presence difference_lifted
    by simp
  have wk: "board_presence sample_before_castling XOR board_presence sample_after_castling
            = CASTLE_WHITE_K sample_castle_footprints"
    by (simp add: sample_before_castling_def sample_after_castling_def sample_castle_footprints_def)
  show ?thesis
    using get_move_castling_or_illegal
            [of sample_before_castling sample_after_castling sample_castle_footprints "''?????''"]
          get_move_castling_or_illegal
            [of start_board sample_piece_lifted sample_castle_footprints "''?????''"]
    using c4 c1 by (simp add: wk)
qed

section \<open>Properties of raspberrypi.c\<close>

lemma wire_bytes_append: "wire_bytes (xs @ ys) = wire_bytes xs @ wire_bytes ys"
  by (induction xs rule: wire_bytes.induct) simp_all

lemma rpi_transmit_human_move_loop_trace:
  "rpi_transmit_human_move_loop mv trace =
     trace @ map (\<lambda>t. Uart_Out_Byte (of_char t)) (takeWhile (\<lambda>t. t \<noteq> CHR 0x00) mv)"
  by (induction mv arbitrary: trace) simp_all

lemma wire_bytes_map_out: "wire_bytes (map (\<lambda>t. Uart_Out_Byte (f t)) xs) = map f xs"
  by (induction xs) simp_all

lemma rpi_transmit_human_move_wire:
  "wire_bytes (rpi_transmit_human_move mv trace) =
     wire_bytes trace @ [START_BYTE, HUMAN_MOVE_INSTR_AND_LEN]
       @ map of_char (takeWhile (\<lambda>t. t \<noteq> CHR 0x00) mv)"
  by (simp add: rpi_transmit_human_move_def Let_def rpi_transmit_human_move_loop_trace
        wire_bytes_append wire_bytes_map_out)

text \<open>
  Claim C6. Every HumanMove transmission is the start byte \<^verbatim>\<open>0x0A\<close>, the byte
  \<^verbatim>\<open>0x35\<close>, the 5 move bytes and 2 check bytes computed over the 7 bytes before.
  The code does not do this: for the move \<^verbatim>\<open>e2e4_\<close>, \<^verbatim>\<open>rpi_transmit_human_move\<close>
  puts 7 bytes on the wire, ending with the last operand byte; no check byte follows.
\<close>

theorem human_move_frame_has_no_check_bytes:
  "wire_bytes (rpi_transmit_human_move ''e2e4_'' []) = [0x0A, 0x35, 0x65, 0x32, 0x65, 0x34, 0x5F]
   \<and> length (wire_bytes (rpi_transmit_human_move ''e2e4_'' [])) = 7"
proof -
  have operand: "takeWhile (\<lambda>t. t \<noteq> CHR 0x00) ''e2e4_'' = ''e2e4_''"
    by simp
  have "wire_bytes (rpi_transmit_human_move ''e2e4_'' []) =
          [START_BYTE, HUMAN_MOVE_INSTR_AND_LEN] @ map of_char ''e2e4_''"
    unfolding rpi_transmit_human_move_wire operand by simp
  then have bytes: "wire_bytes (rpi_transmit_human_move ''e2e4_'' [])
                    = [0x0A, 0x35, 0x65, 0x32, 0x65, 0x34, 0x5F]"
    by (simp add: START_BYTE_def HUMAN_MOVE_INSTR_AND_LEN_def)
  show ?thesis unfolding bytes by simp
qed

section \<open>Properties of gantry.c: the transmit command\<close>

lemma rpi_receive_flag: "msg_ready_to_send (snd (rpi_receive n s)) = msg_ready_to_send s"
  "io_trace (snd (rpi_receive n s)) = io_trace s"
  "comm_is_done (snd (rpi_receive n s)) = comm_is_done s"
  by (simp_all add: rpi_receive_def split: list.splits prod.splits)

lemma gantry_comm_action_send:
  assumes "msg_ready_to_send s"
  shows "wire_bytes (io_trace (gantry_comm_action behind c s))
           = wire_bytes (io_trace s) @ human_move_frame behind c"
    and "\<not> msg_ready_to_send (gantry_comm_action behind c s)"
    and "comm_is_done (gantry_comm_action behind c s) = comm_is_done s"
  using assms
  by (simp_all add: gantry_comm_action_def Let_def wire_bytes_append rpi_transmit_human_move_wire
        human_move_frame_def)

lemma gantry_comm_action_poll:
  assumes "\<not> msg_ready_to_send s"
  shows "wire_bytes (io_trace (gantry_comm_action behind c s)) = wire_bytes (io_trace s)"
    and "\<not> msg_ready_to_send (gantry_comm_action behind c s)"
    and "comm_is_done (gantry_comm_action behind c s) = (comm_is_done s \<or> ack_received s)"
    and "io_trace (gantry_comm_action behind c s) =
           io_trace s @ (if ack_received s then [Clock_Stop_Timer, Clock_Reset_Timer_Value] else [])"
proof -
  obtain received ack_byte s1 where r: "rpi_receive 1 s = ((received, ack_byte), s1)"
    by (metis surj_pair)
  have r': "rpi_receive (Suc 0) s = ((received, ack_byte), s1)"
    using r by simp
  have "s1 = snd (rpi_receive 1 s)" by (simp only: r snd_conv)
  then have s1: "msg_ready_to_send s1 = msg_ready_to_send s" "io_trace s1 = io_trace s"
    "comm_is_done s1 = comm_is_done s"
    by (simp_all only: rpi_receive_flag)
  show "wire_bytes (io_trace (gantry_comm_action behind c s)) = wire_bytes (io_trace s)"
    using assms by (simp add: gantry_comm_action_def r' s1 Let_def wire_bytes_append)
  show "\<not> msg_ready_to_send (gantry_comm_action behind c s)"
    using assms by (simp add: gantry_comm_action_def r' s1 Let_def)
  show "comm_is_done (gantry_comm_action behind c s) = (comm_is_done s \<or> ack_received s)"
    using assms by (simp add: gantry_comm_action_def r' s1 Let_def ack_received_def)
  show "io_trace (gantry_comm_action behind c s) =
          io_trace s @ (if ack_received s then [Clock_Stop_Timer, Clock_Reset_Timer_Value] else [])"
    using assms by (simp add: gantry_comm_action_def r' s1 Let_def ack_received_def)
qed

lemma gantry_comm_actions_poll:
  "\<not> msg_ready_to_send s \<Longrightarrow>
   wire_bytes (io_trace (gantry_comm_actions behinds c s)) = wire_bytes (io_trace s)"
proof (induction behinds arbitrary: s)
  case Nil
  then show ?case by simp
next
  case (Cons behind behinds)
  have "\<not> msg_ready_to_send (gantry_comm_action behind c s)"
    using Cons.prems by (rule gantry_comm_action_poll(2))
  then have "wire_bytes (io_trace (gantry_comm_actions behinds c (gantry_comm_action behind c s)))
             = wire_bytes (io_trace (gantry_comm_action behind c s))"
    by (rule Cons.IH)
  then show ?case using Cons.prems by (simp add: gantry_comm_action_poll(1))
qed

lemma human_move_frame_bytes:
  "human_move_frame behind c =
     [START_BYTE, HUMAN_MOVE_INSTR_AND_LEN]
     @ map of_char (takeWhile (\<lambda>t. t \<noteq> CHR 0x00) (move_to_send c @ behind))"
  by (simp add: human_move_frame_def rpi_transmit_human_move_wire)

text \<open>
  Claim C9. A call of \<^verbatim>\<open>gantry_comm_action\<close> with \<^verbatim>\<open>msg_ready_to_send\<close> set sends the
  human-move frame and clears the flag, and however many calls follow, the wire has
  seen the frame once. The frame is the start byte, the byte \<^verbatim>\<open>0x35\<close> and the bytes
  from the start of \<^verbatim>\<open>move_to_send\<close> up to the first zero byte, in the array or in the
  memory behind it. A call with the flag clear sends nothing and leaves the flag
  clear; it marks the command done exactly when it receives the acknowledgement byte
  \<^verbatim>\<open>0x0F\<close> (or the command was done already), and then stops and resets the timer and
  does nothing else to the outside; any number of such calls sends nothing.
\<close>

theorem comm_action_sends_once:
  "(msg_ready_to_send s \<longrightarrow>
      wire_bytes (io_trace (gantry_comm_action behind c s))
        = wire_bytes (io_trace s) @ human_move_frame behind c
      \<and> human_move_frame behind c =
          [START_BYTE, HUMAN_MOVE_INSTR_AND_LEN]
          @ map of_char (takeWhile (\<lambda>t. t \<noteq> CHR 0x00) (move_to_send c @ behind))
      \<and> \<not> msg_ready_to_send (gantry_comm_action behind c s)
      \<and> wire_bytes (io_trace (gantry_comm_actions (behind # behinds) c s))
          = wire_bytes (io_trace s) @ human_move_frame behind c)
   \<and> (\<not> msg_ready_to_send s \<longrightarrow>
      wire_bytes (io_trace (gantry_comm_action behind c s)) = wire_bytes (io_trace s)
      \<and> \<not> msg_ready_to_send (gantry_comm_action behind c s)
      \<and> comm_is_done (gantry_comm_action behind c s) = (comm_is_done s \<or> ack_received s)
      \<and> io_trace (gantry_comm_action behind c s) =
          io_trace s @ (if ack_received s then [Clock_Stop_Timer, Clock_Reset_Timer_Value] else [])
      \<and> wire_bytes (io_trace (gantry_comm_actions behinds c s)) = wire_bytes (io_trace s))"
proof (intro conjI impI)
  assume set: "msg_ready_to_send s"
  show "wire_bytes (io_trace (gantry_comm_action behind c s))
          = wire_bytes (io_trace s) @ human_move_frame behind c"
    using set by (rule gantry_comm_action_send(1))
  show "human_move_frame behind c =
          [START_BYTE, HUMAN_MOVE_INSTR_AND_LEN]
          @ map of_char (takeWhile (\<lambda>t. t \<noteq> CHR 0x00) (move_to_send c @ behind))"
    by (rule human_move_frame_bytes)
  show clr: "\<not> msg_ready_to_send (gantry_comm_action behind c s)"
    using set by (rule gantry_comm_action_send(2))
  show "wire_bytes (io_trace (gantry_comm_actions (behind # behinds) c s))
          = wire_bytes (io_trace s) @ human_move_frame behind c"
    using gantry_comm_actions_poll [OF clr, of behinds]
          gantry_comm_action_send(1) [OF set, of behind c]
    by simp
next
  assume clr: "\<not> msg_ready_to_send s"
  show "wire_bytes (io_trace (gantry_comm_action behind c s)) = wire_bytes (io_trace s)"
    using clr by (rule gantry_comm_action_poll(1))
  show "\<not> msg_ready_to_send (gantry_comm_action behind c s)"
    using clr by (rule gantry_comm_action_poll(2))
  show "comm_is_done (gantry_comm_action behind c s) = (comm_is_done s \<or> ack_received s)"
    using clr by (rule gantry_comm_action_poll(3))
  show "io_trace (gantry_comm_action behind c s) =
          io_trace s @ (if ack_received s then [Clock_Stop_Timer, Clock_Reset_Timer_Value] else [])"
    using clr by (rule gantry_comm_action_poll(4))
  show "wire_bytes (io_trace (gantry_comm_actions behinds c s)) = wire_bytes (io_trace s)"
    using clr by (rule gantry_comm_actions_poll)
qed

lemma sample_comm_frame:
  "human_move_frame [CHR 0x3F, CHR 0x00, CHR 0x55] (gantry_comm_build_command sample_externals ''e2e4_'')
   = [0x0A, 0x35, 0x65, 0x32, 0x65, 0x34, 0x5F, 0x3F]"
  by (simp add: human_move_frame_def gantry_comm_build_command_def rpi_transmit_human_move_def
        START_BYTE_def HUMAN_MOVE_INSTR_AND_LEN_def)

theorem comm_action_sends_once_witness:
  "msg_ready_to_send (gantry_startup\<lparr>msg_ready_to_send := True\<rparr>)
   \<and> wire_bytes (io_trace (gantry_comm_actions
        [[CHR 0x3F, CHR 0x00, CHR 0x55], [CHR 0x3F, CHR 0x00, CHR 0x55], [CHR 0x00]]
        (gantry_comm_build_command sample_externals ''e2e4_'')
        (gantry_startup\<lparr>msg_ready_to_send := True\<rparr>)))
      = [0x0A, 0x35, 0x65, 0x32, 0x65, 0x34, 0x5F, 0x3F]
   \<and> \<not> msg_ready_to_send (gantry_startup\<lparr>rpi_rx := [(True, [CHR 0x0F])]\<rparr>)
   \<and> comm_is_done (gantry_comm_action [CHR 0x3F, CHR 0x00, CHR 0x55]
        (gantry_comm_build_command sample_externals ''e2e4_'')
        (gantry_startup\<lparr>rpi_rx := [(True, [CHR 0x0F])]\<rparr>))
   \<and> wire_bytes (io_trace (gantry_comm_action [CHR 0x3F, CHR 0x00, CHR 0x55]
        (gantry_comm_build_command sample_externals ''e2e4_'')
        (gantry_startup\<lparr>rpi_rx := [(True, [CHR 0x0F])]\<rparr>))) = []"
proof -
  have flags: "msg_ready_to_send (gantry_startup\<lparr>msg_ready_to_send := True\<rparr>)"
    "\<not> msg_ready_to_send (gantry_startup\<lparr>rpi_rx := [(True, [CHR 0x0F])]\<rparr>)"
    by (simp_all add: gantry_startup_def)
  have traces: "io_trace (gantry_startup\<lparr>msg_ready_to_send := True\<rparr>) = []"
    "io_trace (gantry_startup\<lparr>rpi_rx := [(True, [CHR 0x0F])]\<rparr>) = []"
    by (simp_all add: gantry_startup_def)
  have ack: "ack_received (gantry_startup\<lparr>rpi_rx := [(True, [CHR 0x0F])]\<rparr>)"
    by (simp add: ack_received_def rpi_receive_def ACK_BYTE_def)
  show ?thesis
    using comm_action_sends_once
            [of "gantry_startup\<lparr>msg_ready_to_send := True\<rparr>"
                "[CHR 0x3F, CHR 0x00, CHR 0x55]"
                "gantry_comm_build_command sample_externals ''e2e4_''"
                "[[CHR 0x3F, CHR 0x00, CHR 0x55], [CHR 0x00]]"]
          comm_action_sends_once
            [of "gantry_startup\<lparr>rpi_rx := [(True, [CHR 0x0F])]\<rparr>"
                "[CHR 0x3F, CHR 0x00, CHR 0x55]"
                "gantry_comm_build_command sample_externals ''e2e4_''" "[]"]
    by (simp add: flags traces ack sample_comm_frame del: gantry_comm_actions.simps)
qed

section \<open>Properties of gantry.c: the robot-reply command\<close>

lemma rpi_receive_state: "snd (rpi_receive n s) = s\<lparr>rpi_rx := tl (rpi_rx s)\<rparr>"
  by (cases "rpi_rx s") (auto simp: rpi_receive_def)

lemma board_commit:
  "((p :: chess_board_t)\<lparr>board_presence := board_presence c\<rparr>)\<lparr>board_pieces := board_pieces c\<rparr> = c"
  by (cases p, cases c) simp

lemma rpi_receive_length:
  "fst (fst (rpi_receive n s)) \<Longrightarrow> length (snd (fst (rpi_receive n s))) = n"
  by (cases "rpi_rx s") (auto simp: rpi_receive_def)

lemma five_elements:
  assumes "length m = 5"
  shows "[m ! 0, m ! Suc 0, m ! 2, m ! 3, m ! 4] = m"
proof -
  from assms obtain a b c d e where "m = [a, b, c, d, e]"
    by (auto simp: eval_nat_numeral length_Suc_conv)
  then show ?thesis by simp
qed

lemma received_move_bytes:
  assumes "fst (fst (rpi_receive 5 t))"
  shows "of_char (snd (fst (rpi_receive 5 t)) ! 0) # of_char (snd (fst (rpi_receive 5 t)) ! Suc 0)
           # of_char (snd (fst (rpi_receive 5 t)) ! 2) # of_char (snd (fst (rpi_receive 5 t)) ! 3)
           # of_char (snd (fst (rpi_receive 5 t)) ! 4) # rest
         = map of_char (snd (fst (rpi_receive 5 t))) @ rest"
proof -
  have "length (snd (fst (rpi_receive 5 t))) = 5"
    using assms by (rule rpi_receive_length)
  then have "map of_char (snd (fst (rpi_receive 5 t)))
        = map of_char [snd (fst (rpi_receive 5 t)) ! 0, snd (fst (rpi_receive 5 t)) ! Suc 0,
            snd (fst (rpi_receive 5 t)) ! 2, snd (fst (rpi_receive 5 t)) ! 3,
            snd (fst (rpi_receive 5 t)) ! 4]"
    by (simp only: five_elements)
  then show ?thesis by (rule ssubst) simp
qed

lemma robot_action_previous_board:
  "previous_board (snd (gantry_robot_action ext c s)) =
     (if robot_move_frame_accepted ext s then current_board s else previous_board s)"
  by (simp add: gantry_robot_action_def robot_move_frame_accepted_def Let_def case_prod_beta
        rpi_receive_state rpi_transmit_ack_def utils_copy_array_def board_commit
        ROBOT_MOVE_INSTR_def ILLEGAL_MOVE_INSTR_def received_move_bytes)

lemma robot_action_io_trace:
  "io_trace (snd (gantry_robot_action ext c s)) =
     io_trace s @
       (if robot_move_frame_accepted ext s \<or> illegal_move_frame_accepted ext s
        then [Rpi_Transmit_Ack] else [])"
  by (simp add: gantry_robot_action_def robot_move_frame_accepted_def
        illegal_move_frame_accepted_def Let_def case_prod_beta
        rpi_receive_state rpi_transmit_ack_def utils_copy_array_def
        ROBOT_MOVE_INSTR_def ILLEGAL_MOVE_INSTR_def received_move_bytes)

lemma robot_action_current_board:
  "current_board (snd (gantry_robot_action ext c s)) = current_board s"
  by (simp add: gantry_robot_action_def Let_def case_prod_beta
        rpi_receive_state rpi_transmit_ack_def utils_copy_array_def)

lemma validated_accepted:
  "robot_move_frame_validated ext s \<Longrightarrow> robot_move_frame_accepted ext s"
  "illegal_move_frame_validated ext s \<Longrightarrow> illegal_move_frame_accepted ext s"
  unfolding robot_move_frame_validated_def robot_move_frame_accepted_def
    illegal_move_frame_validated_def illegal_move_frame_accepted_def Let_def case_prod_beta
  by blast+

lemma accepted_validated:
  assumes "\<not> check_bytes_missing s"
  shows "robot_move_frame_accepted ext s = robot_move_frame_validated ext s"
    and "illegal_move_frame_accepted ext s = illegal_move_frame_validated ext s"
  using assms
  by (auto simp: robot_move_frame_validated_def robot_move_frame_accepted_def
        illegal_move_frame_validated_def illegal_move_frame_accepted_def
        check_bytes_missing_def Let_def case_prod_beta
        ROBOT_MOVE_INSTR_def ILLEGAL_MOVE_INSTR_def split: if_splits)

text \<open>
  Claim C2, amended. When the link delivers a complete RobotMove frame whose check
  bytes pass validation over the 8 frame bytes, \<^verbatim>\<open>gantry_robot_action\<close> sets
  \<^verbatim>\<open>previous_board\<close> to \<^verbatim>\<open>current_board\<close> and transmits the acknowledgement. When the
  frame is not such a frame, and its check bytes are not missing, \<^verbatim>\<open>previous_board\<close>
  (presence and pieces) is left as it was, and no acknowledgement is transmitted
  unless the frame is a complete IllegalMove frame whose check bytes pass validation,
  which is acknowledged. Of a frame whose check bytes are missing nothing is stated.
\<close>

theorem robot_action_commits_board:
  "(robot_move_frame_validated ext s \<longrightarrow>
      previous_board (snd (gantry_robot_action ext c s)) = current_board s
      \<and> io_trace (snd (gantry_robot_action ext c s)) = io_trace s @ [Rpi_Transmit_Ack])
   \<and> (\<not> robot_move_frame_validated ext s \<and> \<not> check_bytes_missing s \<longrightarrow>
      previous_board (snd (gantry_robot_action ext c s)) = previous_board s
      \<and> io_trace (snd (gantry_robot_action ext c s)) =
          io_trace s @ (if illegal_move_frame_validated ext s then [Rpi_Transmit_Ack] else []))"
proof (intro conjI impI)
  assume "robot_move_frame_validated ext s"
  then have valid: "robot_move_frame_accepted ext s"
    by (rule validated_accepted)
  show "previous_board (snd (gantry_robot_action ext c s)) = current_board s"
    unfolding robot_action_previous_board using valid by simp
  show "io_trace (snd (gantry_robot_action ext c s)) = io_trace s @ [Rpi_Transmit_Ack]"
    unfolding robot_action_io_trace using valid by simp
next
  assume a: "\<not> robot_move_frame_validated ext s \<and> \<not> check_bytes_missing s"
  then have invalid: "\<not> robot_move_frame_accepted ext s"
    and illegal: "illegal_move_frame_accepted ext s = illegal_move_frame_validated ext s"
    by (simp_all add: accepted_validated)
  show "previous_board (snd (gantry_robot_action ext c s)) = previous_board s"
    unfolding robot_action_previous_board using invalid by simp
  show "io_trace (snd (gantry_robot_action ext c s)) =
          io_trace s @ (if illegal_move_frame_validated ext s then [Rpi_Transmit_Ack] else [])"
    unfolding robot_action_io_trace using invalid illegal by simp
qed

lemma sample_illegal_not_robot:
  "\<not> robot_move_frame_validated sample_externals (gantry_startup\<lparr>rpi_rx := sample_illegal_move_rx\<rparr>)"
  "\<not> robot_move_frame_accepted sample_externals (gantry_startup\<lparr>rpi_rx := sample_illegal_move_rx\<rparr>)"
  by (simp_all add: robot_move_frame_validated_def robot_move_frame_accepted_def rpi_receive_def
        sample_illegal_move_rx_def ROBOT_MOVE_INSTR_def START_BYTE_def Let_def)

lemma sample_illegal_validated:
  "illegal_move_frame_validated sample_externals (gantry_startup\<lparr>rpi_rx := sample_illegal_move_rx\<rparr>)"
  by (simp add: illegal_move_frame_validated_def rpi_receive_def sample_illegal_move_rx_def
        ILLEGAL_MOVE_INSTR_def START_BYTE_def Let_def sample_externals_def
        sample_validate_transmission_def)

text \<open>
  Claim C2 as stated asks for no acknowledgement whenever the frame is not a
  complete, validated RobotMove frame. A complete IllegalMove frame whose check bytes
  pass validation is not one, and is acknowledged.
\<close>

theorem robot_action_acknowledges_illegal_move:
  "\<not> robot_move_frame_validated sample_externals (gantry_startup\<lparr>rpi_rx := sample_illegal_move_rx\<rparr>)
   \<and> illegal_move_frame_validated sample_externals (gantry_startup\<lparr>rpi_rx := sample_illegal_move_rx\<rparr>)
   \<and> io_trace (gantry_startup\<lparr>rpi_rx := sample_illegal_move_rx\<rparr>) = []
   \<and> io_trace (snd (gantry_robot_action sample_externals
        (gantry_robot_build_command sample_externals)
        (gantry_startup\<lparr>rpi_rx := sample_illegal_move_rx\<rparr>))) = [Rpi_Transmit_Ack]"
proof -
  have "io_trace (gantry_startup\<lparr>rpi_rx := sample_illegal_move_rx\<rparr>) = []"
    by (simp add: gantry_startup_def)
  then show ?thesis
    by (simp add: robot_action_io_trace sample_illegal_not_robot sample_illegal_validated
          validated_accepted)
qed

lemma sample_robot_validated:
  "robot_move_frame_validated sample_externals
     (gantry_startup\<lparr>current_board := sample_after_e2e4, rpi_rx := sample_robot_move_rx\<rparr>)"
  by (simp add: robot_move_frame_validated_def rpi_receive_def sample_robot_move_rx_def
        ROBOT_MOVE_INSTR_def START_BYTE_def Let_def sample_externals_def
        sample_validate_transmission_def)

lemma sample_corrupt_not_validated:
  "\<not> robot_move_frame_validated sample_externals
     (gantry_startup\<lparr>current_board := sample_after_e2e4, rpi_rx := sample_corrupt_rx\<rparr>)"
  "\<not> illegal_move_frame_validated sample_externals
     (gantry_startup\<lparr>current_board := sample_after_e2e4, rpi_rx := sample_corrupt_rx\<rparr>)"
  "\<not> check_bytes_missing
     (gantry_startup\<lparr>current_board := sample_after_e2e4, rpi_rx := sample_corrupt_rx\<rparr>)"
  by (simp_all add: robot_move_frame_validated_def illegal_move_frame_validated_def
        check_bytes_missing_def
        rpi_receive_def sample_corrupt_rx_def ILLEGAL_MOVE_INSTR_def
        ROBOT_MOVE_INSTR_def START_BYTE_def Let_def sample_externals_def
        sample_validate_transmission_def)

lemma sample_illegal_not_missing:
  "\<not> check_bytes_missing
     (gantry_startup\<lparr>current_board := sample_after_e2e4, rpi_rx := sample_illegal_move_rx\<rparr>)"
  "\<not> robot_move_frame_validated sample_externals
     (gantry_startup\<lparr>current_board := sample_after_e2e4, rpi_rx := sample_illegal_move_rx\<rparr>)"
  "illegal_move_frame_validated sample_externals
     (gantry_startup\<lparr>current_board := sample_after_e2e4, rpi_rx := sample_illegal_move_rx\<rparr>)"
  by (simp_all add: robot_move_frame_validated_def illegal_move_frame_validated_def
        check_bytes_missing_def
        rpi_receive_def sample_illegal_move_rx_def ILLEGAL_MOVE_INSTR_def
        ROBOT_MOVE_INSTR_def START_BYTE_def Let_def sample_externals_def
        sample_validate_transmission_def)

theorem robot_action_commits_board_witness:
  "robot_move_frame_validated sample_externals
     (gantry_startup\<lparr>current_board := sample_after_e2e4, rpi_rx := sample_robot_move_rx\<rparr>)
   \<and> previous_board (snd (gantry_robot_action sample_externals
        (gantry_robot_build_command sample_externals)
        (gantry_startup\<lparr>current_board := sample_after_e2e4, rpi_rx := sample_robot_move_rx\<rparr>)))
      = sample_after_e2e4
   \<and> io_trace (snd (gantry_robot_action sample_externals
        (gantry_robot_build_command sample_externals)
        (gantry_startup\<lparr>current_board := sample_after_e2e4, rpi_rx := sample_robot_move_rx\<rparr>)))
      = [Rpi_Transmit_Ack]
   \<and> \<not> robot_move_frame_validated sample_externals
     (gantry_startup\<lparr>current_board := sample_after_e2e4, rpi_rx := sample_corrupt_rx\<rparr>)
   \<and> \<not> check_bytes_missing
     (gantry_startup\<lparr>current_board := sample_after_e2e4, rpi_rx := sample_corrupt_rx\<rparr>)
   \<and> previous_board (snd (gantry_robot_action sample_externals
        (gantry_robot_build_command sample_externals)
        (gantry_startup\<lparr>current_board := sample_after_e2e4, rpi_rx := sample_corrupt_rx\<rparr>)))
      = start_board
   \<and> io_trace (snd (gantry_robot_action sample_externals
        (gantry_robot_build_command sample_externals)
        (gantry_startup\<lparr>current_board := sample_after_e2e4, rpi_rx := sample_corrupt_rx\<rparr>)))
      = []
   \<and> \<not> robot_move_frame_validated sample_externals
     (gantry_startup\<lparr>current_board := sample_after_e2e4, rpi_rx := sample_illegal_move_rx\<rparr>)
   \<and> \<not> check_bytes_missing
     (gantry_startup\<lparr>current_board := sample_after_e2e4, rpi_rx := sample_illegal_move_rx\<rparr>)
   \<and> previous_board (snd (gantry_robot_action sample_externals
        (gantry_robot_build_command sample_externals)
        (gantry_startup\<lparr>current_board := sample_after_e2e4, rpi_rx := sample_illegal_move_rx\<rparr>)))
      = start_board
   \<and> io_trace (snd (gantry_robot_action sample_externals
        (gantry_robot_build_command sample_externals)
        (gantry_startup\<lparr>current_board := sample_after_e2e4, rpi_rx := sample_illegal_move_rx\<rparr>)))
      = [Rpi_Transmit_Ack]"
proof -
  have fields:
    "current_board (gantry_startup\<lparr>current_board := sample_after_e2e4, rpi_rx := sample_robot_move_rx\<rparr>)
       = sample_after_e2e4"
    "io_trace (gantry_startup\<lparr>current_board := sample_after_e2e4, rpi_rx := sample_robot_move_rx\<rparr>) = []"
    "previous_board (gantry_startup\<lparr>current_board := sample_after_e2e4, rpi_rx := sample_corrupt_rx\<rparr>)
       = start_board"
    "io_trace (gantry_startup\<lparr>current_board := sample_after_e2e4, rpi_rx := sample_corrupt_rx\<rparr>) = []"
    "previous_board (gantry_startup\<lparr>current_board := sample_after_e2e4, rpi_rx := sample_illegal_move_rx\<rparr>)
       = start_board"
    "io_trace (gantry_startup\<lparr>current_board := sample_after_e2e4, rpi_rx := sample_illegal_move_rx\<rparr>) = []"
    by (simp_all add: gantry_startup_def)
  show ?thesis
    using robot_action_commits_board
            [of sample_externals
                "gantry_startup\<lparr>current_board := sample_after_e2e4, rpi_rx := sample_robot_move_rx\<rparr>"
                "gantry_robot_build_command sample_externals"]
          robot_action_commits_board
            [of sample_externals
                "gantry_startup\<lparr>current_board := sample_after_e2e4, rpi_rx := sample_corrupt_rx\<rparr>"
                "gantry_robot_build_command sample_externals"]
          robot_action_commits_board
            [of sample_externals
                "gantry_startup\<lparr>current_board := sample_after_e2e4, rpi_rx := sample_illegal_move_rx\<rparr>"
                "gantry_robot_build_command sample_externals"]
    by (simp add: fields sample_robot_validated sample_corrupt_not_validated
          sample_illegal_not_missing)
qed

lemma low_nibble_mask: "(x :: 8 word) AND - 241 = x AND 15"
proof -
  have "(- 241 :: 8 word) = 15" by simp
  then show ?thesis by (simp only:)
qed

lemma robot_action_command:
  assumes "robot_move_frame_accepted ext s"
  shows "fst (gantry_robot_action ext c s) =
     (let mv = frame_move s;
          status_after_human = drop_bit 4 (frame_status s);
          status_after_robot = frame_status s AND 0x0F;
          c1 = c\<lparr>robot_move_uci := mv\<rparr>
      in if status_after_human = GAME_CHECKMATE then
           c1\<lparr>game_status := HUMAN_WIN, move := (move c)\<lparr>move_type := IDLE\<rparr>\<rparr>
         else if status_after_robot = GAME_CHECKMATE then
           load_robot_move ext mv (c1\<lparr>game_status := ROBOT_WIN\<rparr>)
         else if status_after_human = GAME_STALEMATE then
           c1\<lparr>game_status := STALEMATE, move := (move c)\<lparr>move_type := IDLE\<rparr>\<rparr>
         else if status_after_robot = GAME_STALEMATE then
           load_robot_move ext mv (c1\<lparr>game_status := STALEMATE\<rparr>)
         else load_robot_move ext mv (c1\<lparr>game_status := ONGOING\<rparr>))"
proof -
  from assms have parts:
    "fst (fst (rpi_receive 1 s))"
    "of_char (snd (fst (rpi_receive 1 s)) ! 0) = START_BYTE"
    "fst (fst (rpi_receive 1 (snd (rpi_receive 1 s))))"
    "drop_bit 4 (of_char (snd (fst (rpi_receive 1 (snd (rpi_receive 1 s)))) ! 0) :: 8 word)
       = ROBOT_MOVE_INSTR"
    "fst (fst (rpi_receive 5 (snd (rpi_receive 1 (snd (rpi_receive 1 s))))))"
    "fst (fst (rpi_receive 1 (snd (rpi_receive 5 (snd (rpi_receive 1 (snd (rpi_receive 1 s))))))))"
    unfolding robot_move_frame_accepted_def Let_def case_prod_beta by blast+
  from assms have valid:
    "utils_validate_transmission ext
       (map of_char
         ([snd (fst (rpi_receive 1 s)) ! 0,
           snd (fst (rpi_receive 1 (snd (rpi_receive 1 s)))) ! 0]
          @ snd (fst (rpi_receive 5 (snd (rpi_receive 1 (snd (rpi_receive 1 s))))))
          @ [snd (fst (rpi_receive 1
               (snd (rpi_receive 5 (snd (rpi_receive 1 (snd (rpi_receive 1 s)))))))) ! 0]))
       8
       (snd (fst (rpi_receive 2 (snd (rpi_receive 1
          (snd (rpi_receive 5 (snd (rpi_receive 1 (snd (rpi_receive 1 s)))))))))))"
    unfolding robot_move_frame_accepted_def Let_def case_prod_beta by blast
  show ?thesis
    using parts valid
    by (simp add: gantry_robot_action_def Let_def case_prod_beta
        rpi_receive_state ROBOT_MOVE_INSTR_def ILLEGAL_MOVE_INSTR_def received_move_bytes
        frame_move_def frame_status_def five_elements rpi_receive_length low_nibble_mask
        GAME_CHECKMATE_def GAME_STALEMATE_def)
qed


text \<open>
  Claim C3. For a RobotMove frame that \<^verbatim>\<open>gantry_robot_action\<close> accepts, and so for
  every validated one, the two nibbles of the status byte decide the game status of
  the command: a high nibble of checkmate gives \<^verbatim>\<open>HUMAN_WIN\<close> with
  the move type set to \<^verbatim>\<open>IDLE\<close>; otherwise a low nibble of checkmate gives
  \<^verbatim>\<open>ROBOT_WIN\<close> with the move loaded from the frame; otherwise a stalemate in the high
  nibble gives \<^verbatim>\<open>STALEMATE\<close> with the move type set to \<^verbatim>\<open>IDLE\<close>, and a stalemate in
  the low nibble alone gives \<^verbatim>\<open>STALEMATE\<close> with the move loaded from the frame;
  otherwise the status is \<^verbatim>\<open>ONGOING\<close> with the move loaded from the frame.
\<close>

theorem robot_action_game_status:
  assumes "robot_move_frame_accepted ext s"
  shows
    "(let c' = fst (gantry_robot_action ext c s);
          mv = frame_move s;
          status_after_human = drop_bit 4 (frame_status s);
          status_after_robot = frame_status s AND 0x0F;
          suppressed = (move c)\<lparr>move_type := IDLE\<rparr>;
          from_frame =
            \<lparr>source_file = utils_byte_to_file ext (mv ! 0),
             source_rank = utils_byte_to_rank ext (mv ! 1),
             dest_file = utils_byte_to_file ext (mv ! 2),
             dest_rank = utils_byte_to_rank ext (mv ! 3),
             move_type = utils_byte_to_move_type ext (mv ! 4)\<rparr>
      in (status_after_human = GAME_CHECKMATE \<longrightarrow>
            game_status c' = HUMAN_WIN \<and> move c' = suppressed)
       \<and> (status_after_human \<noteq> GAME_CHECKMATE \<and> status_after_robot = GAME_CHECKMATE \<longrightarrow>
            game_status c' = ROBOT_WIN \<and> move c' = from_frame)
       \<and> (status_after_human = GAME_STALEMATE \<and> status_after_robot \<noteq> GAME_CHECKMATE \<longrightarrow>
            game_status c' = STALEMATE \<and> move c' = suppressed)
       \<and> (status_after_human \<noteq> GAME_CHECKMATE \<and> status_after_human \<noteq> GAME_STALEMATE
            \<and> status_after_robot = GAME_STALEMATE \<longrightarrow>
            game_status c' = STALEMATE \<and> move c' = from_frame)
       \<and> (status_after_human \<noteq> GAME_CHECKMATE \<and> status_after_human \<noteq> GAME_STALEMATE
            \<and> status_after_robot \<noteq> GAME_CHECKMATE \<and> status_after_robot \<noteq> GAME_STALEMATE \<longrightarrow>
            game_status c' = ONGOING \<and> move c' = from_frame)
       \<and> robot_move_uci c' = mv)"
  unfolding robot_action_command [OF assms]
  by (simp add: Let_def load_robot_move_def GAME_CHECKMATE_def GAME_STALEMATE_def)

lemma sample_frames_validated:
  "robot_move_frame_accepted sample_externals (gantry_startup\<lparr>rpi_rx := sample_robot_move_rx\<rparr>)"
  "robot_move_frame_accepted sample_externals (gantry_startup\<lparr>rpi_rx := sample_checkmated_rx\<rparr>)"
  by (simp_all add: robot_move_frame_accepted_def rpi_receive_def sample_robot_move_rx_def
        sample_checkmated_rx_def
        ROBOT_MOVE_INSTR_def START_BYTE_def Let_def sample_externals_def
        sample_validate_transmission_def)

lemma sample_frames_contents:
  "frame_move (gantry_startup\<lparr>rpi_rx := sample_robot_move_rx\<rparr>) = ''e7e5_''"
  "frame_status (gantry_startup\<lparr>rpi_rx := sample_robot_move_rx\<rparr>) = 0x11"
  "frame_move (gantry_startup\<lparr>rpi_rx := sample_checkmated_rx\<rparr>) = ''e7e5_''"
  "frame_status (gantry_startup\<lparr>rpi_rx := sample_checkmated_rx\<rparr>) = 0x21"
  by (simp_all add: frame_move_def frame_status_def rpi_receive_def sample_robot_move_rx_def
        sample_checkmated_rx_def)

lemma sample_conversions:
  "utils_byte_to_file sample_externals CHR ''e'' = 4"
  "utils_byte_to_rank sample_externals CHR ''7'' = 6"
  "utils_byte_to_rank sample_externals CHR ''5'' = 4"
  "utils_byte_to_move_type sample_externals CHR ''_'' = MOVE"
  "FILE_ERROR sample_externals = -1"
  "RANK_ERROR sample_externals = -1"
  by (simp_all add: sample_externals_def sample_byte_to_file_def sample_byte_to_rank_def
        sample_byte_to_move_type_def)

theorem robot_action_game_status_witness:
  "robot_move_frame_accepted sample_externals (gantry_startup\<lparr>rpi_rx := sample_robot_move_rx\<rparr>)
   \<and> game_status (fst (gantry_robot_action sample_externals
        (gantry_robot_build_command sample_externals)
        (gantry_startup\<lparr>rpi_rx := sample_robot_move_rx\<rparr>))) = ONGOING
   \<and> move (fst (gantry_robot_action sample_externals
        (gantry_robot_build_command sample_externals)
        (gantry_startup\<lparr>rpi_rx := sample_robot_move_rx\<rparr>)))
      = \<lparr>source_file = 4, source_rank = 6, dest_file = 4, dest_rank = 4, move_type = MOVE\<rparr>
   \<and> robot_move_frame_accepted sample_externals (gantry_startup\<lparr>rpi_rx := sample_checkmated_rx\<rparr>)
   \<and> game_status (fst (gantry_robot_action sample_externals
        (gantry_robot_build_command sample_externals)
        (gantry_startup\<lparr>rpi_rx := sample_checkmated_rx\<rparr>))) = HUMAN_WIN
   \<and> move (fst (gantry_robot_action sample_externals
        (gantry_robot_build_command sample_externals)
        (gantry_startup\<lparr>rpi_rx := sample_checkmated_rx\<rparr>)))
      = \<lparr>source_file = -1, source_rank = -1, dest_file = -1, dest_rank = -1, move_type = IDLE\<rparr>"
  using robot_action_game_status [OF sample_frames_validated(1), of "gantry_robot_build_command sample_externals"]
        robot_action_game_status [OF sample_frames_validated(2), of "gantry_robot_build_command sample_externals"]
  by (simp add: sample_frames_validated sample_frames_contents Let_def sample_conversions
        GAME_CHECKMATE_def GAME_STALEMATE_def gantry_robot_build_command_def)

section \<open>Properties of gantry.c: the exit of the robot-reply command\<close>

lemma home_pushes_not_human: "filter is_human_sense_command (gantry_home_pushes ext) = []"
  by (simp add: gantry_home_pushes_def gantry_home_build_command_def)

lemma home_pushes_length: "length (gantry_home_pushes ext) = 6"
  by (simp add: gantry_home_pushes_def)

lemma move_pushes_not_human:
  "filter is_human_sense_command (gantry_robot_exit_move_pushes ext c) = []"
  by (cases "move_type (move c)")
     (simp_all add: gantry_robot_exit_move_pushes_def Let_def home_pushes_not_human)

lemma move_pushes_length: "length (gantry_robot_exit_move_pushes ext c) \<le> 14"
  by (cases "move_type (move c)")
     (simp_all add: gantry_robot_exit_move_pushes_def Let_def home_pushes_length)

lemma exit_pushes_human:
  "filter is_human_sense_command (gantry_robot_exit_pushes ext c) =
     (if game_status c = ONGOING then [Gantry_Command (gantry_human_build_command ext)] else [])"
  by (simp add: gantry_robot_exit_pushes_def move_pushes_not_human gantry_human_build_command_def)

lemma exit_pushes_length: "length (gantry_robot_exit_pushes ext c) \<le> 15"
  using move_pushes_length [of ext c] by (simp add: gantry_robot_exit_pushes_def)

lemma push_discard_fold:
  "fold command_queue_push_discard vs s
   = s\<lparr>commands := snd (command_queue_pushes vs (commands s))\<rparr>"
  by (induction vs arbitrary: s) (simp_all add: command_queue_push_discard_def case_prod_beta)

lemma robot_exit_commands:
  "commands (gantry_robot_exit ext c s)
   = snd (command_queue_pushes (gantry_robot_exit_pushes ext c) (commands s))"
  by (simp add: gantry_robot_exit_def Let_def push_discard_fold case_prod_beta)

text \<open>
  Claim C7. The commands \<^verbatim>\<open>gantry_robot_exit\<close> pushes are the motion commands of the
  robot's move followed, if and only if the game status of the command is
  \<^verbatim>\<open>ONGOING\<close>, by one human-sense command; for every other status none of the
  commands it pushes is a human-sense command. When the queue has room for the at most
  15 commands of one exit, they are appended to it in that order, so that with
  \<^verbatim>\<open>ONGOING\<close> the human-sense command is the last command of the queue.
\<close>

theorem robot_exit_rearms_iff_ongoing:
  "commands (gantry_robot_exit ext c s)
     = snd (command_queue_pushes (gantry_robot_exit_pushes ext c) (commands s))
   \<and> filter is_human_sense_command (gantry_robot_exit_pushes ext c)
       = (if game_status c = ONGOING then [Gantry_Command (gantry_human_build_command ext)]
          else [])
   \<and> (game_status c \<noteq> ONGOING \<longrightarrow>
        (\<forall>p \<in> set (gantry_robot_exit_pushes ext c). \<not> is_human_sense_command p))
   \<and> (command_queue_wf (commands s) \<and> command_queue_stored (commands s) \<le> 112 \<longrightarrow>
        command_queue_contents (commands (gantry_robot_exit ext c s))
          = command_queue_contents (commands s) @ gantry_robot_exit_pushes ext c
        \<and> (game_status c = ONGOING \<longrightarrow>
             last (command_queue_contents (commands (gantry_robot_exit ext c s)))
               = Gantry_Command (gantry_human_build_command ext)))"
proof (intro conjI impI)
  show "commands (gantry_robot_exit ext c s)
     = snd (command_queue_pushes (gantry_robot_exit_pushes ext c) (commands s))"
    by (rule robot_exit_commands)
  show "filter is_human_sense_command (gantry_robot_exit_pushes ext c)
       = (if game_status c = ONGOING then [Gantry_Command (gantry_human_build_command ext)]
          else [])"
    by (rule exit_pushes_human)
next
  assume "game_status c \<noteq> ONGOING"
  then show "\<forall>p \<in> set (gantry_robot_exit_pushes ext c). \<not> is_human_sense_command p"
    using exit_pushes_human [of ext c] by (simp add: filter_empty_conv)
next
  assume room: "command_queue_wf (commands s) \<and> command_queue_stored (commands s) \<le> 112"
  then have "command_queue_stored (commands s) + length (gantry_robot_exit_pushes ext c) \<le> 127"
    using exit_pushes_length [of ext c] by simp
  with room have
    "fst (command_queue_pushes (gantry_robot_exit_pushes ext c) (commands s))
       = replicate (length (gantry_robot_exit_pushes ext c)) True
     \<and> command_queue_wf (snd (command_queue_pushes (gantry_robot_exit_pushes ext c) (commands s)))
     \<and> command_queue_contents (snd (command_queue_pushes (gantry_robot_exit_pushes ext c) (commands s)))
       = command_queue_contents (commands s) @ gantry_robot_exit_pushes ext c"
    by (intro pushes_contents) simp_all
  then show c: "command_queue_contents (commands (gantry_robot_exit ext c s))
           = command_queue_contents (commands s) @ gantry_robot_exit_pushes ext c"
    by (simp add: robot_exit_commands)
  assume "game_status c = ONGOING"
  then show "last (command_queue_contents (commands (gantry_robot_exit ext c s)))
             = Gantry_Command (gantry_human_build_command ext)"
    unfolding c by (simp add: gantry_robot_exit_pushes_def)
qed

lemma startup_queue:
  "command_queue_wf (commands gantry_startup)"
  "command_queue_stored (commands gantry_startup) = 0"
  "command_queue_contents (commands gantry_startup) = []"
  unfolding gantry_startup_def gantry_state.select_convs
  by (rule init_wf; simp)+

lemma sample_reply_pushes:
  "gantry_robot_exit_pushes sample_externals sample_reply_ongoing =
     [Stepper_Build_Chess_XY_Command 4 6 1 1, Delay_Build_Command 1000,
      Stepper_Build_Chess_XY_Command 4 4 1 1, Delay_Build_Command 1000,
      Gantry_Command (gantry_home_build_command sample_externals),
      Stepper_Build_Home_Z_Command, Stepper_Build_Home_XY_Command,
      Delay_Build_Command 3000, Stepper_Build_Rel_Command (-5) 5 0 1 1 0,
      Gantry_Command (gantry_home_build_command sample_externals),
      Gantry_Command (gantry_human_build_command sample_externals)]"
  "gantry_robot_exit_pushes sample_externals sample_reply_human_win = []"
  "game_status sample_reply_ongoing = ONGOING"
  "game_status sample_reply_human_win = HUMAN_WIN"
  by (simp_all add: gantry_robot_exit_pushes_def gantry_robot_exit_move_pushes_def
        gantry_home_pushes_def sample_reply_ongoing_def sample_reply_human_win_def
        gantry_robot_build_command_def sample_externals_def Let_def)

theorem robot_exit_rearms_iff_ongoing_witness:
  "command_queue_wf (commands gantry_startup)
   \<and> command_queue_stored (commands gantry_startup) = 0
   \<and> game_status sample_reply_ongoing = ONGOING
   \<and> command_queue_contents (commands (gantry_robot_exit sample_externals sample_reply_ongoing
         gantry_startup))
       = [Stepper_Build_Chess_XY_Command 4 6 1 1, Delay_Build_Command 1000,
          Stepper_Build_Chess_XY_Command 4 4 1 1, Delay_Build_Command 1000,
          Gantry_Command (gantry_home_build_command sample_externals),
          Stepper_Build_Home_Z_Command, Stepper_Build_Home_XY_Command,
          Delay_Build_Command 3000, Stepper_Build_Rel_Command (-5) 5 0 1 1 0,
          Gantry_Command (gantry_home_build_command sample_externals),
          Gantry_Command (gantry_human_build_command sample_externals)]
   \<and> game_status sample_reply_human_win = HUMAN_WIN
   \<and> command_queue_contents (commands (gantry_robot_exit sample_externals sample_reply_human_win
         gantry_startup)) = []"
proof -
  have room: "command_queue_wf (commands gantry_startup)
              \<and> command_queue_stored (commands gantry_startup) \<le> 112"
    by (simp add: startup_queue)
  have c1: "command_queue_contents
              (commands (gantry_robot_exit sample_externals sample_reply_ongoing gantry_startup))
            = command_queue_contents (commands gantry_startup)
              @ gantry_robot_exit_pushes sample_externals sample_reply_ongoing"
    using robot_exit_rearms_iff_ongoing [of sample_externals sample_reply_ongoing gantry_startup]
      room
    by blast
  have c2: "command_queue_contents
              (commands (gantry_robot_exit sample_externals sample_reply_human_win gantry_startup))
            = command_queue_contents (commands gantry_startup)
              @ gantry_robot_exit_pushes sample_externals sample_reply_human_win"
    using robot_exit_rearms_iff_ongoing [of sample_externals sample_reply_human_win gantry_startup]
      room
    by blast
  show ?thesis
    unfolding c1 c2 by (simp add: startup_queue sample_reply_pushes)
qed

end
